theory Spec2Isabelle
  imports Complex_Main "HOL-Library.Word" "HOL-Library.Sublist"
begin

unbundle bit_operations_syntax

section \<open>Buffers and JavaScript numbers\<close>

text \<open>
  A Node.js \<open>Buffer\<close> is a sequence of bytes.  The reads used by the blind protocol
  (\<open>readUInt8\<close>, \<open>readUInt16LE\<close>, \<open>readUInt32LE\<close>) throw a \<open>RangeError\<close> when the
  bytes they need lie outside the buffer; otherwise they return a non-negative
  JavaScript number, modelled as an \<open>int\<close>.  Every other exception of the program is an
  \<open>Error\<close> object carrying its message.
\<close>

type_synonym buffer = "8 word list"

datatype js_error = RangeError | Error string

definition readUInt8 :: "buffer \<Rightarrow> nat \<Rightarrow> js_error + int" where
  "readUInt8 buf off =
     (if off < length buf then Inr (uint (buf ! off)) else Inl RangeError)"

definition readUInt16LE :: "buffer \<Rightarrow> nat \<Rightarrow> js_error + int" where
  "readUInt16LE buf off =
     (if off + 1 < length buf
      then Inr (uint (buf ! off) + uint (buf ! (off + 1)) * 2 ^ 8)
      else Inl RangeError)"

definition readUInt32LE :: "buffer \<Rightarrow> nat \<Rightarrow> js_error + int" where
  "readUInt32LE buf off =
     (if off + 3 < length buf
      then Inr (uint (buf ! off) + uint (buf ! (off + 1)) * 2 ^ 8
                + uint (buf ! (off + 2)) * 2 ^ 16 + uint (buf ! (off + 3)) * 2 ^ 24)
      else Inl RangeError)"

text \<open>
  The JavaScript operator \<open>&\<close> converts both operands to 32-bit integers, combines them
  bitwise and returns the result as a \<^emph>\<open>signed\<close> 32-bit integer.
\<close>

definition js_bitand :: "int \<Rightarrow> int \<Rightarrow> int" where
  "js_bitand a b = sint ((word_of_int a :: 32 word) AND word_of_int b)"

section \<open>Constants of the blind protocol (Constants.ts)\<close>

definition MIN_ANGLE :: int where "MIN_ANGLE = 0"
definition MAX_ANGLE :: int where "MAX_ANGLE = 200"

definition IS_REVERSED :: int where "IS_REVERSED = 0x00000001"
definition IS_BONDING :: int where "IS_BONDING = 0x00000002"
definition IS_CALIBRATED :: int where "IS_CALIBRATED = 0x00010000"
definition HAS_SOLAR :: int where "HAS_SOLAR = 0x00020000"
definition IS_CHARGING_SOLAR :: int where "IS_CHARGING_SOLAR = 0x00040000"
definition IS_CHARGING_USB :: int where "IS_CHARGING_USB = 0x00080000"
definition IS_TIME_VALID :: int where "IS_TIME_VALID = 0x00100000"
definition UNDER_VOLTAGE_LOCKOUT :: int where "UNDER_VOLTAGE_LOCKOUT = 0x00200000"
definition IS_OVER_TEMP :: int where "IS_OVER_TEMP = 0x00400000"
definition TEMP_OVERRIDE :: int where "TEMP_OVERRIDE = 0x00800000"
definition IS_PASSKEY_VALID :: int where "IS_PASSKEY_VALID = 0x80000000"

section \<open>Decoding of the Sensors and Status characteristics (Blind)\<close>

record IBlindSensorState =
  batteryCharge :: rat
  batteryPercentage :: rat
  batteryTemperature :: rat
  batteryVoltage :: rat
  interiorTemperature :: rat
  illuminance :: rat
  solarPanelVoltage :: rat

record IBlindStatus =
  hasSolar :: bool
  isBonding :: bool
  isCalibrated :: bool
  isSolarCharging :: bool
  isUsbCharging :: bool
  isOverTemperature :: bool
  isPaired :: bool
  isPasskeyInvalid :: bool
  isPasskeyValid :: bool
  isReversed :: bool
  isTimeValid :: bool
  isUnderVoltageLockout :: bool
  tempOverride :: bool

text \<open>
  \<open>parseBlindSensors\<close> builds its object field by field; the first read that fails
  throws.  The three divisions by ten are divisions of JavaScript numbers: the quotient
  of an integer below \<open>2 ^ 16\<close> by ten is the number written with one decimal digit,
  modelled here as the exact rational.
\<close>

definition parseBlindSensors :: "buffer \<Rightarrow> js_error + IBlindSensorState" where
  "parseBlindSensors sensorState =
     (case readUInt8 sensorState 0 of Inl e \<Rightarrow> Inl e | Inr percentage \<Rightarrow>
     (case readUInt16LE sensorState 2 of Inl e \<Rightarrow> Inl e | Inr voltage \<Rightarrow>
     (case readUInt16LE sensorState 4 of Inl e \<Rightarrow> Inl e | Inr charge \<Rightarrow>
     (case readUInt16LE sensorState 6 of Inl e \<Rightarrow> Inl e | Inr solar \<Rightarrow>
     (case readUInt16LE sensorState 8 of Inl e \<Rightarrow> Inl e | Inr interior \<Rightarrow>
     (case readUInt16LE sensorState 10 of Inl e \<Rightarrow> Inl e | Inr battery \<Rightarrow>
     (case readUInt16LE sensorState 12 of Inl e \<Rightarrow> Inl e | Inr lux \<Rightarrow>
        Inr \<lparr> batteryCharge = of_int charge,
              batteryPercentage = of_int percentage,
              batteryTemperature = of_int battery / 10,
              batteryVoltage = of_int voltage,
              interiorTemperature = of_int interior / 10,
              illuminance = of_int lux / 10,
              solarPanelVoltage = of_int solar \<rparr>)))))))"

definition parseBlindStatus :: "buffer \<Rightarrow> js_error + IBlindStatus" where
  "parseBlindStatus buf =
     (case readUInt32LE buf 0 of Inl e \<Rightarrow> Inl e | Inr status \<Rightarrow>
        Inr \<lparr> hasSolar = (js_bitand status HAS_SOLAR = HAS_SOLAR),
              isBonding = (js_bitand status IS_BONDING = IS_BONDING),
              isCalibrated = (js_bitand status IS_CALIBRATED = IS_CALIBRATED),
              isSolarCharging = (js_bitand status IS_CHARGING_SOLAR = IS_CHARGING_SOLAR),
              isUsbCharging = (js_bitand status IS_CHARGING_USB = IS_CHARGING_USB),
              isOverTemperature = (js_bitand status IS_OVER_TEMP = IS_OVER_TEMP),
              isPaired = False,
              isPasskeyInvalid = False,
              isPasskeyValid = (js_bitand status IS_PASSKEY_VALID = IS_PASSKEY_VALID),
              isReversed = (js_bitand status IS_REVERSED = IS_REVERSED),
              isTimeValid = (js_bitand status IS_TIME_VALID = IS_TIME_VALID),
              isUnderVoltageLockout =
                (js_bitand status UNDER_VOLTAGE_LOCKOUT = UNDER_VOLTAGE_LOCKOUT),
              tempOverride = (js_bitand status TEMP_OVERRIDE = TEMP_OVERRIDE) \<rparr>)"

section \<open>Strings\<close>

text \<open>
  JavaScript strings are modelled as lists of characters.  \<open>toHex\<close> is
  \<open>Buffer.toString("hex")\<close>: two lower-case digits per byte.  \<open>fromHex\<close> is
  \<open>Buffer.from(s, "hex")\<close>: it decodes pairs of hexadecimal digits and stops at the first
  pair that is not one (a trailing single character is dropped as well).
  \<open>toLowerCase\<close> maps the upper-case letters of the character set to lower case, and
  \<open>includes_str\<close> is the substring test \<open>String.prototype.includes\<close>.
\<close>

definition hexDigit :: "nat \<Rightarrow> char" where
  "hexDigit n = ''0123456789abcdef'' ! n"

definition toHexByte :: "8 word \<Rightarrow> string" where
  "toHexByte b = [hexDigit (unat b div 16), hexDigit (unat b mod 16)]"

definition toHex :: "buffer \<Rightarrow> string" where
  "toHex buf = concat (map toHexByte buf)"

definition unhex :: "char \<Rightarrow> nat option" where
  "unhex c =
     (let n = (of_char c :: nat) in
      if 48 \<le> n \<and> n \<le> 57 then Some (n - 48)
      else if 97 \<le> n \<and> n \<le> 102 then Some (n - 87)
      else if 65 \<le> n \<and> n \<le> 70 then Some (n - 55)
      else None)"

fun fromHex :: "string \<Rightarrow> buffer" where
  "fromHex (a # b # rest) =
     (case unhex a of
        None \<Rightarrow> []
      | Some hi \<Rightarrow>
          (case unhex b of
             None \<Rightarrow> []
           | Some lo \<Rightarrow> word_of_nat (16 * hi + lo) # fromHex rest))"
| "fromHex rest = []"

definition toLowerChar :: "char \<Rightarrow> char" where
  "toLowerChar c =
     (let n = (of_char c :: nat) in
      if (65 \<le> n \<and> n \<le> 90) \<or> (192 \<le> n \<and> n \<le> 214) \<or> (216 \<le> n \<and> n \<le> 222)
      then char_of (n + 32) else c)"

definition toLowerCase :: "string \<Rightarrow> string" where
  "toLowerCase s = map toLowerChar s"

fun includes_str :: "string \<Rightarrow> string \<Rightarrow> bool" where
  "includes_str [] sub = (sub = [])"
| "includes_str (c # cs) sub = (prefix sub (c # cs) \<or> includes_str cs sub)"

function showNat :: "nat \<Rightarrow> string" where
  "showNat n = (if n < 10 then [hexDigit n] else showNat (n div 10) @ [hexDigit (n mod 10)])"
  by pat_completeness auto
termination
  by (relation "measure id") auto

declare showNat.simps [simp del]

definition showInt :: "int \<Rightarrow> string" where
  "showInt v = (if v < 0 then CHR ''-'' # showNat (nat (- v)) else showNat (nat v))"

section \<open>The command queue of the DeviceManager\<close>

text \<open>
  A queued command is a closure.  The closures of this program perform one GATT
  operation on a characteristic slot of a blind, or re-enter the device-added handler;
  the model names the operation.  Whether the invocation resolves or rejects is decided by
  the Bluetooth stack and by the closure.  A promise can reject with any value: the
  rejection carries \<open>Some message\<close> when the value has a string \<open>message\<close>, as Error
  objects have, and \<open>None\<close> when it has not (a thrown string, \<open>undefined\<close>, a plain
  object).
\<close>

datatype slot = Ack | Angle | Name | Passkey | Sensors | Status | VersionInfo

datatype bt_action =
    WriteValueWithResponse slot buffer
  | ReadValue slot
  | OnDeviceAdded string

datatype outcome = Resolved | Rejected "string option"

record IBluetoothCommand =
  command :: bt_action
  maxRetries :: int
  name :: string

record IQueuedBluetoothCommand = IBluetoothCommand +
  retryCount :: int

text \<open>
  The state of a DeviceManager.  \<open>adapter\<close> is \<open>None\<close> while no adapter is selected and
  otherwise holds the adapter's \<open>availableDeviceUuids\<close>.  Two fields record what the
  event loop holds for the manager: \<open>inFlight\<close>, the queued commands whose invocation
  has been started by \<open>dequeue\<close> and has not settled yet, and \<open>pendingImmediates\<close>, the
  number of \<open>setImmediate\<close> callbacks scheduled by \<open>dequeue\<close> that have not run yet.
\<close>

record DeviceManager =
  bluetoothCommandQueue :: "IQueuedBluetoothCommand list"
  isDisposed :: bool
  isExecuting :: bool
  maxConnectRetries :: int
  connectRetryCounts :: "string \<rightharpoonup> int"
  adapter :: "string list option"
  inFlight :: "IQueuedBluetoothCommand list"
  pendingImmediates :: nat

definition new_DeviceManager :: "int \<Rightarrow> DeviceManager" where
  "new_DeviceManager maxRetriesOption =
     \<lparr> bluetoothCommandQueue = [], isDisposed = False, isExecuting = False,
       maxConnectRetries = maxRetriesOption, connectRetryCounts = Map.empty,
       adapter = None, inFlight = [], pendingImmediates = 0 \<rparr>"

text \<open>
  \<open>dequeue\<close> runs in two parts.  \<open>dequeue_start\<close> is the part up to the \<open>await\<close> of the
  command's promise; \<open>dequeue_settle\<close> is the continuation that runs once the promise of
  the popped item has settled: the \<open>catch\<close> block on rejection, the \<open>finally\<close> block, and
  the \<open>setImmediate\<close> call.  The \<open>catch\<close> block evaluates \<open>e.message.includes(...)\<close>
  without a guard: on a rejection without a string message that expression raises a
  TypeError inside the \<open>catch\<close> block, the \<open>finally\<close> block still clears \<open>isExecuting\<close>,
  and the error leaves \<open>dequeue\<close> before the item is put back and before \<open>setImmediate\<close>
  is reached.
\<close>

definition dequeue_start :: "DeviceManager \<Rightarrow> DeviceManager" where
  "dequeue_start dm =
     (if isDisposed dm then dm
      else if \<not> isExecuting dm \<and> length (bluetoothCommandQueue dm) > 0 then
        (case bluetoothCommandQueue dm of
           [] \<Rightarrow> dm
         | queueItem # rest \<Rightarrow>
             dm\<lparr> isExecuting := True,
                 bluetoothCommandQueue := rest,
                 inFlight := inFlight dm @ [queueItem\<lparr>retryCount := retryCount queueItem + 1\<rparr>] \<rparr>)
      else dm)"

definition dequeue_settle ::
  "DeviceManager \<Rightarrow> IQueuedBluetoothCommand \<Rightarrow> outcome \<Rightarrow> DeviceManager" where
  "dequeue_settle dm queueItem result =
     (case result of
        Resolved \<Rightarrow>
          dm\<lparr> isExecuting := False, pendingImmediates := pendingImmediates dm + 1 \<rparr>
      | Rejected None \<Rightarrow> dm\<lparr> isExecuting := False \<rparr>
      | Rejected (Some message) \<Rightarrow>
          (let caught =
                 (if \<not> includes_str message ''Not connected'' then
                    (if retryCount queueItem < maxRetries queueItem
                     then dm\<lparr>bluetoothCommandQueue := queueItem # bluetoothCommandQueue dm\<rparr>
                     else dm)
                  else dm)
           in caught\<lparr> isExecuting := False,
                      pendingImmediates := pendingImmediates caught + 1 \<rparr>))"

definition executeCommand :: "DeviceManager \<Rightarrow> IBluetoothCommand \<Rightarrow> DeviceManager" where
  "executeCommand dm cmd =
     dequeue_start
       (dm\<lparr>bluetoothCommandQueue := bluetoothCommandQueue dm @
             [\<lparr> command = command cmd, maxRetries = maxRetries cmd, name = name cmd,
                retryCount = 0 \<rparr>]\<rparr>)"

definition dispose :: "DeviceManager \<Rightarrow> DeviceManager" where
  "dispose dm = dm\<lparr> isDisposed := True, bluetoothCommandQueue := [] \<rparr>"

text \<open>
  \<open>reconnectDevice\<close>.  The result says which way the call went: no reconnect, the
  queued re-entry of the device-added handler, a discovery round
  (\<open>waitUntilDevicesFound\<close>), or the error that \<open>waitUntilDevicesFound\<close> throws when there
  is no adapter.  A counter that is \<open>undefined\<close> or \<open>0\<close> is falsy.
\<close>

datatype reconnect_result = NotAttempted | DeviceAddedReentry | DiscoveryRound | Threw string

definition reconnectDevice :: "DeviceManager \<Rightarrow> string \<Rightarrow> DeviceManager \<times> reconnect_result" where
  "reconnectDevice dm address =
     (let count = connectRetryCounts dm address in
      if maxConnectRetries dm = - 1
         \<or> (case count of None \<Rightarrow> True | Some c \<Rightarrow> c = 0)
         \<or> (case count of None \<Rightarrow> False | Some c \<Rightarrow> c \<le> maxConnectRetries dm)
      then
        (let dm1 = dm\<lparr>connectRetryCounts :=
                       (connectRetryCounts dm)
                         (address \<mapsto> (case count of None \<Rightarrow> 0 | Some c \<Rightarrow> c) + 1)\<rparr>
         in case adapter dm1 of
              None \<Rightarrow> (dm1, Threw ''No adapter available.'')
            | Some available \<Rightarrow>
                (if address \<in> set available
                 then (executeCommand dm1
                         \<lparr> command = OnDeviceAdded address, maxRetries = 0,
                           name = ''Reconnect'' \<rparr>, DeviceAddedReentry)
                 else (dm1, DiscoveryRound)))
      else (dm, NotAttempted))"

text \<open>
  The events of the single task loop that touch the manager, and one turn for each: a
  caller submits a command, the invocation at position \<open>i\<close> of \<open>inFlight\<close> settles, a
  scheduled \<open>setImmediate\<close> callback runs, the manager is disposed, a device asks to be
  reconnected, or the adapter (selected by \<open>start\<close>) reports its available devices.
\<close>

datatype dm_event =
    ExecuteCommand IBluetoothCommand
  | Settle nat outcome
  | Immediate
  | Dispose
  | ReconnectDevice string
  | AdapterDevices "string list"

definition dm_step :: "DeviceManager \<Rightarrow> dm_event \<Rightarrow> DeviceManager" where
  "dm_step dm ev =
     (case ev of
        ExecuteCommand cmd \<Rightarrow> executeCommand dm cmd
      | Settle i result \<Rightarrow>
          (if i < length (inFlight dm)
           then dequeue_settle
                  (dm\<lparr>inFlight := take i (inFlight dm) @ drop (Suc i) (inFlight dm)\<rparr>)
                  (inFlight dm ! i) result
           else dm)
      | Immediate \<Rightarrow>
          (if pendingImmediates dm > 0
           then dequeue_start (dm\<lparr>pendingImmediates := pendingImmediates dm - 1\<rparr>)
           else dm)
      | Dispose \<Rightarrow> dispose dm
      | ReconnectDevice address \<Rightarrow> fst (reconnectDevice dm address)
      | AdapterDevices uuids \<Rightarrow> dm\<lparr>adapter := Some uuids\<rparr>)"

definition dm_run :: "DeviceManager \<Rightarrow> dm_event list \<Rightarrow> DeviceManager" where
  "dm_run dm evs = foldl dm_step dm evs"

text \<open>At most one invocation is in flight, and \<open>isExecuting\<close> says whether one is.\<close>

definition single_flight :: "DeviceManager \<Rightarrow> bool" where
  "single_flight dm = (length (inFlight dm) \<le> 1 \<and> isExecuting dm = (inFlight dm \<noteq> []))"

section \<open>The Blind device\<close>

definition ANGLE_CHARACTERISTIC_UUID :: string where
  "ANGLE_CHARACTERISTIC_UUID = ''00001403-1212-efde-1600-785feabcd123''"

definition PASSKEY_CHARACTERISTIC_UUID :: string where
  "PASSKEY_CHARACTERISTIC_UUID = ''00001409-1212-efde-1600-785feabcd123''"

text \<open>The events a Blind emits to its listeners that the properties below speak about.\<close>

datatype blind_emit =
    angle_changed int
  | passkey_changed string
  | unlocked
  | unlock_failed

text \<open>
  The fields of a Blind instance that the angle protocol and the unlock handshake use.
  A bound characteristic is represented by its identifier, \<open>unlockTimer\<close> says whether
  the interval timer is set, \<open>emitted\<close> lists the events emitted so far (oldest first)
  and \<open>submitted\<close> the commands handed to \<open>DeviceManager.executeCommand\<close> so far.
\<close>

record Blind =
  angle :: int
  isUnlocked :: bool
  passkey :: "string option"
  angleCharacteristic :: "string option"
  passkeyCharacteristic :: "string option"
  blindPasskey :: string
  maxUnlockRetries :: int
  unlockTimer :: bool
  unlockAttempts :: int
  emitted :: "blind_emit list"
  submitted :: "IBluetoothCommand list"

definition new_Blind :: "string \<Rightarrow> int \<Rightarrow> Blind" where
  "new_Blind optionsPasskey optionsMaxUnlockRetries =
     \<lparr> angle = - 1, isUnlocked = False, passkey = None,
       angleCharacteristic = None, passkeyCharacteristic = None,
       blindPasskey = optionsPasskey, maxUnlockRetries = optionsMaxUnlockRetries,
       unlockTimer = False, unlockAttempts = 0, emitted = [], submitted = [] \<rparr>"

definition isValidAngle :: "int \<Rightarrow> bool" where
  "isValidAngle v = (v \<ge> MIN_ANGLE \<and> v \<le> MAX_ANGLE)"

text \<open>
  \<open>setAngle\<close> throws on an invalid value; otherwise it submits one command when the Angle
  characteristic is bound and only logs a warning when it is not.  \<open>Buffer.from([value])\<close>
  stores the value as one byte.
\<close>

definition setAngle :: "Blind \<Rightarrow> int \<Rightarrow> js_error + Blind" where
  "setAngle b v =
     (if isValidAngle v = False then Inl (Error (''Invalid angle value: '' @ showInt v))
      else if angleCharacteristic b \<noteq> None then
        Inr (b\<lparr>submitted := submitted b @
               [\<lparr> command = WriteValueWithResponse Angle [word_of_int v],
                  maxRetries = 5, name = ''setAngle'' \<rparr>]\<rparr>)
      else Inr b)"

text \<open>
  \<open>setPasskey\<close> ignores its argument: the command it submits writes the passkey the
  instance was configured with.
\<close>

definition setPasskey :: "Blind \<Rightarrow> string \<Rightarrow> Blind" where
  "setPasskey b arg =
     (if passkeyCharacteristic b \<noteq> None then
        (let p = blindPasskey b;
             p' = (if length p = 12 then p @ ''01'' else drop 2 p @ ''01'')
         in b\<lparr>submitted := submitted b @
               [\<lparr> command = WriteValueWithResponse Passkey (fromHex p'),
                  maxRetries = 5, name = ''setPasskey'' \<rparr>]\<rparr>)
      else b)"

definition clearUnlockTimer :: "Blind \<Rightarrow> Blind" where
  "clearUnlockTimer b = (if unlockTimer b then b\<lparr>unlockTimer := False\<rparr> else b)"

definition onAngleChanged :: "Blind \<Rightarrow> buffer \<Rightarrow> js_error + Blind" where
  "onAngleChanged b buf =
     (case readUInt8 buf 0 of
        Inl e \<Rightarrow> Inl e
      | Inr a \<Rightarrow>
          (if isValidAngle a = False then Inr (b\<lparr>angle := - 1\<rparr>)
           else if a \<noteq> angle b then
             Inr (b\<lparr>angle := a, emitted := emitted b @ [angle_changed a]\<rparr>)
           else Inr b))"

definition onPasskeyChanged :: "Blind \<Rightarrow> buffer \<Rightarrow> Blind" where
  "onPasskeyChanged b buf =
     (let hex = toHex buf in
      if Some hex \<noteq> passkey b then
        (let b1 = b\<lparr>passkey := Some hex, emitted := emitted b @ [passkey_changed hex]\<rparr> in
         if hex \<noteq> [] \<and> toLowerCase hex = toLowerCase (blindPasskey b) @ ''00'' then
           (let b2 = clearUnlockTimer (b1\<lparr>isUnlocked := True, unlockAttempts := 0\<rparr>)
            in b2\<lparr>emitted := emitted b2 @ [unlocked]\<rparr>)
         else b1\<lparr>isUnlocked := False\<rparr>)
      else b)"

text \<open>
  \<open>unlock\<close> up to its first suspension.  An attempt submits the passkey write and waits
  until the write has happened; then \<open>queuePasskeyRead\<close> submits the passkey read.
  Without a bound Passkey characteristic \<open>setPasskey\<close> returns at once and the read is
  submitted directly.  The continuation that runs when the read has settled is
  \<open>startUnlockTimerIfLocked\<close>.
\<close>

definition queuePasskeyRead :: "Blind \<Rightarrow> Blind" where
  "queuePasskeyRead b =
     b\<lparr>submitted := submitted b @
         [\<lparr> command = ReadValue Passkey, maxRetries = 5, name = ''getPasskey'' \<rparr>]\<rparr>"

definition unlock :: "Blind \<Rightarrow> Blind" where
  "unlock b =
     (if unlockAttempts b < maxUnlockRetries b then
        (let b1 = setPasskey (b\<lparr>unlockAttempts := unlockAttempts b + 1, isUnlocked := False\<rparr>)
                    (blindPasskey b)
         in if passkeyCharacteristic b1 \<noteq> None then b1 else queuePasskeyRead b1)
      else
        (let b1 = clearUnlockTimer b in b1\<lparr>emitted := emitted b1 @ [unlock_failed]\<rparr>))"

definition startUnlockTimerIfLocked :: "Blind \<Rightarrow> Blind" where
  "startUnlockTimerIfLocked b =
     (if \<not> isUnlocked b \<and> \<not> unlockTimer b \<and> unlockAttempts b < maxUnlockRetries b
      then b\<lparr>unlockTimer := True\<rparr> else b)"

definition clearCharacteristics :: "Blind \<Rightarrow> Blind" where
  "clearCharacteristics b = b\<lparr>angleCharacteristic := None, passkeyCharacteristic := None\<rparr>"

definition disconnect :: "Blind \<Rightarrow> Blind" where
  "disconnect b =
     clearCharacteristics ((clearUnlockTimer b)\<lparr>isUnlocked := False, unlockAttempts := 0\<rparr>)"

text \<open>
  \<open>onParentConnect\<close>: reset the lock status, bind the characteristics found on the
  device by their identifiers, and attempt to unlock.
\<close>

fun bindCharacteristics :: "Blind \<Rightarrow> string list \<Rightarrow> Blind" where
  "bindCharacteristics b [] = b"
| "bindCharacteristics b (characteristicId # rest) =
     bindCharacteristics
       (if characteristicId = ANGLE_CHARACTERISTIC_UUID
        then b\<lparr>angleCharacteristic := Some characteristicId\<rparr>
        else if characteristicId = PASSKEY_CHARACTERISTIC_UUID
        then b\<lparr>passkeyCharacteristic := Some characteristicId\<rparr>
        else b)
       rest"

definition onParentConnect :: "Blind \<Rightarrow> string list \<Rightarrow> Blind" where
  "onParentConnect b characteristics =
     unlock (bindCharacteristics (b\<lparr>isUnlocked := False\<rparr>) characteristics)"

text \<open>
  What can happen to a Blind instance, one turn of the task loop each: the parent device
  connects, a tick of the unlock timer (which fires only while the timer is set), the
  passkey write of an unlock attempt has happened, the passkey read of an unlock attempt
  has settled, a notification of the Passkey or the Angle characteristic arrives, a
  caller sets the angle, or the blind disconnects.  A handler that throws leaves the
  instance as it was.
\<close>

datatype blind_event =
    ParentConnect "string list"
  | UnlockTimerTick
  | PasskeyWritten
  | PasskeyReadSettled
  | PasskeyNotification buffer
  | AngleNotification buffer
  | SetAngle int
  | Disconnect

definition blind_step :: "Blind \<Rightarrow> blind_event \<Rightarrow> Blind" where
  "blind_step b ev =
     (case ev of
        ParentConnect characteristics \<Rightarrow> onParentConnect b characteristics
      | UnlockTimerTick \<Rightarrow> (if unlockTimer b then unlock b else b)
      | PasskeyWritten \<Rightarrow> queuePasskeyRead b
      | PasskeyReadSettled \<Rightarrow> startUnlockTimerIfLocked b
      | PasskeyNotification buf \<Rightarrow> onPasskeyChanged b buf
      | AngleNotification buf \<Rightarrow>
          (case onAngleChanged b buf of Inl e \<Rightarrow> b | Inr b' \<Rightarrow> b')
      | SetAngle v \<Rightarrow> (case setAngle b v of Inl e \<Rightarrow> b | Inr b' \<Rightarrow> b')
      | Disconnect \<Rightarrow> disconnect b)"

definition blind_run :: "Blind \<Rightarrow> blind_event list \<Rightarrow> Blind" where
  "blind_run b evs = foldl blind_step b evs"

section \<open>The bridge: angle publications (Application, BlindMqtt)\<close>

definition MQTT_TOPIC_PREFIX :: string where
  "MQTT_TOPIC_PREFIX = ''bt2mqtt''"

definition sanitizeMacAddress :: "string \<Rightarrow> string" where
  "sanitizeMacAddress macAddress = map (\<lambda>c. if c = CHR '':'' then CHR ''_'' else c) macAddress"

record IBlindConfig =
  mac :: string
  configName :: string
  configPasskey :: string

definition getBlindTiltStatusTopic :: "IBlindConfig \<Rightarrow> string" where
  "getBlindTiltStatusTopic blindConfig =
     MQTT_TOPIC_PREFIX @ ''/cover/'' @ sanitizeMacAddress (mac blindConfig) @ ''/tilt/state''"

definition getBlindStateTopic :: "IBlindConfig \<Rightarrow> string" where
  "getBlindStateTopic blindConfig =
     MQTT_TOPIC_PREFIX @ ''/cover/'' @ sanitizeMacAddress (mac blindConfig) @ ''/state''"

datatype mqtt_payload = JsonNumber int | Text string

text \<open>
  The bridge: the configured blinds, the connection flag, and the messages handed to the
  MQTT client so far (oldest first), each a topic and a payload.  \<open>log_conn\<close> is the
  connection callback of the MQTT client, which sets and clears the flag.
\<close>

record Application =
  blinds :: "IBlindConfig list"
  isMqttConnected :: bool
  published :: "(string \<times> mqtt_payload) list"

definition log_conn :: "Application \<Rightarrow> string \<Rightarrow> Application" where
  "log_conn app eventName =
     (if eventName = ''on_ready'' then app\<lparr>isMqttConnected := True\<rparr>
      else if eventName = ''on_disconnect'' then app\<lparr>isMqttConnected := False\<rparr>
      else app)"

definition getBlindConfig :: "Application \<Rightarrow> string \<Rightarrow> IBlindConfig option" where
  "getBlindConfig app macAddress = find (\<lambda>blind. mac blind = macAddress) (blinds app)"

definition publishNumberMessage :: "Application \<Rightarrow> string \<Rightarrow> int \<Rightarrow> Application" where
  "publishNumberMessage app topic payload =
     (if isMqttConnected app
      then app\<lparr>published := published app @ [(topic, JsonNumber payload)]\<rparr> else app)"

definition publishStringMessage :: "Application \<Rightarrow> string \<Rightarrow> string \<Rightarrow> Application" where
  "publishStringMessage app topic payload =
     (if isMqttConnected app
      then app\<lparr>published := published app @ [(topic, Text payload)]\<rparr> else app)"

text \<open>
  \<open>_onBlindAngleChanged\<close> awaits the tilt publication before it publishes the state, so
  it runs in two turns, and each publication reads the connection flag when it is made.
  \<open>onBlindAngleChanged\<close> is the first turn, up to that \<open>await\<close>: it returns the
  application and what the suspended handler holds, the configuration of the blind and the
  rounded angle (\<open>None\<close> when the handler has returned because the blind has no
  configuration).  \<open>onBlindAngleChanged_resume\<close> is the second turn, on the application
  as it is when the handler resumes.
\<close>

definition onBlindAngleChanged ::
  "Application \<Rightarrow> string \<Rightarrow> int \<Rightarrow> Application \<times> (IBlindConfig \<times> int) option" where
  "onBlindAngleChanged app blindAddress angle' =
     (case getBlindConfig app blindAddress of
        None \<Rightarrow> (app, None)
      | Some blindConfig \<Rightarrow>
          (let roundedAngle =
                 (if angle' \<ge> 190 then 200 else if angle' \<le> 10 then 0 else angle')
           in (publishNumberMessage app (getBlindTiltStatusTopic blindConfig) roundedAngle,
               Some (blindConfig, roundedAngle))))"

definition onBlindAngleChanged_resume ::
  "Application \<Rightarrow> (IBlindConfig \<times> int) option \<Rightarrow> Application" where
  "onBlindAngleChanged_resume app suspended =
     (case suspended of
        None \<Rightarrow> app
      | Some (blindConfig, roundedAngle) \<Rightarrow>
          (if roundedAngle \<le> 10 \<or> roundedAngle \<ge> 190
           then publishStringMessage app (getBlindStateTopic blindConfig) ''closed''
           else publishStringMessage app (getBlindStateTopic blindConfig) ''open''))"

section \<open>Sample inputs\<close>

text \<open>Commands, a device address and a passkey used in the worked examples.\<close>

definition sample_setAngle :: IBluetoothCommand where
  "sample_setAngle =
     \<lparr> command = WriteValueWithResponse Angle [100], maxRetries = 5, name = ''setAngle'' \<rparr>"

definition sample_getPasskey :: IBluetoothCommand where
  "sample_getPasskey = \<lparr> command = ReadValue Passkey, maxRetries = 5, name = ''getPasskey'' \<rparr>"


definition sample_mac :: string where
  "sample_mac = ''AA:BB:CC:DD:EE:FF''"

definition sample_passkey :: string where
  "sample_passkey = ''000102030405''"

definition sample_app :: Application where
  "sample_app =
     \<lparr> blinds = [\<lparr> mac = ''11:22:33:44:55:66'', configName = ''Bedroom'',
                    configPasskey = ''0a0b0c0d0e0f'' \<rparr>,
                 \<lparr> mac = sample_mac, configName = ''Kitchen'', configPasskey = sample_passkey \<rparr>],
       isMqttConnected = True, published = [] \<rparr>"

section \<open>Status decoding\<close>

lemma sint_eq_uint_small: "uint (x :: 32 word) < 2 ^ 31 \<Longrightarrow> sint x = uint x"
proof -
  assume "uint x < 2 ^ 31"
  moreover have "- (2 ^ 31) \<le> uint x"
  proof -
    have "- (2 ^ 31) \<le> (0::int)" by simp
    also have "0 \<le> uint x" by simp
    finally show ?thesis .
  qed
  ultimately show ?thesis
    by (simp add: sint_uint signed_take_bit_int_eq_self)
qed

text \<open>For a mask below \<open>2 ^ 31\<close> the JavaScript test is the test of the bits.\<close>

lemma js_bitand_mask:
  assumes "0 \<le> m" "m < 2 ^ 31"
  shows "(js_bitand a m = m) = ((word_of_int a :: 32 word) AND word_of_int m = word_of_int m)"
proof -
  let ?x = "(word_of_int a :: 32 word) AND word_of_int m"
  have um: "uint (word_of_int m :: 32 word) = m"
    using assms by (simp add: uint_word_of_int)
  have "?x \<le> word_of_int m" by (rule word_and_le1)
  then have le: "uint ?x \<le> m" using um by (simp add: word_le_def)
  then have "uint ?x < 2 ^ 31" using assms by simp
  then have "sint ?x = uint ?x" by (rule sint_eq_uint_small)
  then have "(js_bitand a m = m) = (uint ?x = uint (word_of_int m :: 32 word))"
    by (simp add: js_bitand_def um)
  also have "\<dots> = (?x = word_of_int m)"
    using word_uint_eqI by auto
  finally show ?thesis .
qed

text \<open>
  The result of \<open>&\<close> is a signed 32-bit integer, so it is never the positive number
  \<open>0x80000000\<close>.
\<close>

lemma js_bitand_never_top: "js_bitand a IS_PASSKEY_VALID \<noteq> IS_PASSKEY_VALID"
proof -
  have "js_bitand a IS_PASSKEY_VALID < 2 ^ 31"
    unfolding js_bitand_def using sint_lt [where 'a = 32] by simp
  then show ?thesis by (simp add: IS_PASSKEY_VALID_def)
qed

lemma parseBlindStatus_short: "length buf < 4 \<Longrightarrow> parseBlindStatus buf = Inl RangeError"
  by (simp add: parseBlindStatus_def readUInt32LE_def)

text \<open>
  On a buffer of at least four bytes every flag but \<open>isPasskeyValid\<close> is the mask test on
  the little-endian word; \<open>isPasskeyValid\<close> is false whatever the word is.
\<close>

lemma parseBlindStatus_flags:
  assumes "readUInt32LE buf 0 = Inr status" and "w = (word_of_int status :: 32 word)"
  shows "parseBlindStatus buf = Inr
     \<lparr> hasSolar = (w AND 0x20000 = 0x20000),
       isBonding = (w AND 2 = 2),
       isCalibrated = (w AND 0x10000 = 0x10000),
       isSolarCharging = (w AND 0x40000 = 0x40000),
       isUsbCharging = (w AND 0x80000 = 0x80000),
       isOverTemperature = (w AND 0x400000 = 0x400000),
       isPaired = False,
       isPasskeyInvalid = False,
       isPasskeyValid = False,
       isReversed = (w AND 1 = 1),
       isTimeValid = (w AND 0x100000 = 0x100000),
       isUnderVoltageLockout = (w AND 0x200000 = 0x200000),
       tempOverride = (w AND 0x800000 = 0x800000) \<rparr>"
  using assms
  by (simp add: parseBlindStatus_def js_bitand_never_top js_bitand_mask
      HAS_SOLAR_def IS_BONDING_def IS_CALIBRATED_def IS_CHARGING_SOLAR_def IS_CHARGING_USB_def
      IS_OVER_TEMP_def IS_REVERSED_def IS_TIME_VALID_def UNDER_VOLTAGE_LOCKOUT_def TEMP_OVERRIDE_def)

text \<open>
  Claim C1.  The claim asks that the Status bytes \<open>01 00 02 80\<close> (the word
  \<open>0x80020001\<close>) decode to isReversed, hasSolar and isPasskeyValid true and every other
  flag false.  The code reads the word \<open>2147614721\<close> and decodes isReversed and hasSolar
  as claimed, but returns isPasskeyValid false: the signed result of \<open>&\<close> is
  \<open>-2147483648\<close>, which is not the mask \<open>2147483648\<close>.
\<close>

theorem parseBlindStatus_01_00_02_80:
  "readUInt32LE [0x01, 0x00, 0x02, 0x80] 0 = Inr 0x80020001
   \<and> js_bitand 0x80020001 IS_PASSKEY_VALID = - 2147483648
   \<and> parseBlindStatus [0x01, 0x00, 0x02, 0x80] = Inr
     \<lparr> hasSolar = True, isBonding = False, isCalibrated = False, isSolarCharging = False,
       isUsbCharging = False, isOverTemperature = False, isPaired = False,
       isPasskeyInvalid = False, isPasskeyValid = False, isReversed = True,
       isTimeValid = False, isUnderVoltageLockout = False, tempOverride = False \<rparr>"
  by (simp add: parseBlindStatus_def readUInt32LE_def js_bitand_def
      HAS_SOLAR_def IS_BONDING_def IS_CALIBRATED_def IS_CHARGING_SOLAR_def IS_CHARGING_USB_def
      IS_OVER_TEMP_def IS_REVERSED_def IS_TIME_VALID_def UNDER_VOLTAGE_LOCKOUT_def
      TEMP_OVERRIDE_def IS_PASSKEY_VALID_def)

section \<open>Sensor decoding\<close>

text \<open>
  Claim C5.  For every Sensors buffer of at least 14 bytes \<open>parseBlindSensors\<close> returns
  the battery percentage from byte 0, the battery voltage, battery charge and solar panel
  voltage from the little-endian 16-bit values at offsets 2, 4 and 6, and the interior
  temperature, battery temperature and illuminance as a tenth of the little-endian 16-bit
  values at offsets 8, 10 and 12; the bytes
  \<open>55 00 C4 0E 00 00 00 00 E0 00 D4 00 32 00\<close> decode to 85, 3780, 0, 0, 22.4, 21.2
  and 5.0.
\<close>

theorem parseBlindSensors_decodes:
  assumes "14 \<le> length buf"
  shows "parseBlindSensors buf = Inr
     \<lparr> batteryCharge = of_int (uint (buf ! 4) + uint (buf ! 5) * 256),
       batteryPercentage = of_int (uint (buf ! 0)),
       batteryTemperature = of_int (uint (buf ! 10) + uint (buf ! 11) * 256) / 10,
       batteryVoltage = of_int (uint (buf ! 2) + uint (buf ! 3) * 256),
       interiorTemperature = of_int (uint (buf ! 8) + uint (buf ! 9) * 256) / 10,
       illuminance = of_int (uint (buf ! 12) + uint (buf ! 13) * 256) / 10,
       solarPanelVoltage = of_int (uint (buf ! 6) + uint (buf ! 7) * 256) \<rparr>
   \<and> parseBlindSensors
           [0x55, 0x00, 0xC4, 0x0E, 0x00, 0x00, 0x00, 0x00, 0xE0, 0x00, 0xD4, 0x00, 0x32, 0x00]
         = Inr \<lparr> batteryCharge = 0, batteryPercentage = 85, batteryTemperature = 21.2,
                 batteryVoltage = 3780, interiorTemperature = 22.4, illuminance = 5.0,
                 solarPanelVoltage = 0 \<rparr>"
proof (rule conjI)
  from assms have "buf \<noteq> []" by auto
  with assms show "parseBlindSensors buf = Inr
     \<lparr> batteryCharge = of_int (uint (buf ! 4) + uint (buf ! 5) * 256),
       batteryPercentage = of_int (uint (buf ! 0)),
       batteryTemperature = of_int (uint (buf ! 10) + uint (buf ! 11) * 256) / 10,
       batteryVoltage = of_int (uint (buf ! 2) + uint (buf ! 3) * 256),
       interiorTemperature = of_int (uint (buf ! 8) + uint (buf ! 9) * 256) / 10,
       illuminance = of_int (uint (buf ! 12) + uint (buf ! 13) * 256) / 10,
       solarPanelVoltage = of_int (uint (buf ! 6) + uint (buf ! 7) * 256) \<rparr>"
    by (simp add: parseBlindSensors_def readUInt8_def readUInt16LE_def)
  show "parseBlindSensors
           [0x55, 0x00, 0xC4, 0x0E, 0x00, 0x00, 0x00, 0x00, 0xE0, 0x00, 0xD4, 0x00, 0x32, 0x00]
         = Inr \<lparr> batteryCharge = 0, batteryPercentage = 85, batteryTemperature = 21.2,
                 batteryVoltage = 3780, interiorTemperature = 22.4, illuminance = 5.0,
                 solarPanelVoltage = 0 \<rparr>"
    by (simp add: parseBlindSensors_def readUInt8_def readUInt16LE_def)
qed

theorem parseBlindSensors_decodes_witness:
  "14 \<le> length [0x55 :: 8 word, 0x00, 0xC4, 0x0E, 0x07, 0x00, 0x00, 0x00, 0xE0, 0x00, 0xD4, 0x00,
                  0x32, 0x00, 0xFF]
   \<and> parseBlindSensors
        [0x55, 0x00, 0xC4, 0x0E, 0x07, 0x00, 0x00, 0x00, 0xE0, 0x00, 0xD4, 0x00, 0x32, 0x00, 0xFF]
      = Inr \<lparr> batteryCharge = 7, batteryPercentage = 85, batteryTemperature = 21.2,
              batteryVoltage = 3780, interiorTemperature = 22.4, illuminance = 5,
              solarPanelVoltage = 0 \<rparr>"
  using parseBlindSensors_decodes
          [of "[0x55, 0x00, 0xC4, 0x0E, 0x07, 0x00, 0x00, 0x00, 0xE0, 0x00, 0xD4, 0x00,
                0x32, 0x00, 0xFF]"]
  by simp

section \<open>The single-flight command queue\<close>

lemma single_flight_new: "single_flight (new_DeviceManager cap)"
  by (simp add: single_flight_def new_DeviceManager_def)

lemma single_flight_dequeue_start: "single_flight dm \<Longrightarrow> single_flight (dequeue_start dm)"
  by (auto simp: single_flight_def dequeue_start_def split: list.splits)

lemma single_flight_executeCommand: "single_flight dm \<Longrightarrow> single_flight (executeCommand dm cmd)"
  unfolding executeCommand_def
  by (rule single_flight_dequeue_start) (simp add: single_flight_def)

lemma single_flight_dequeue_settle:
  "inFlight dm = [] \<Longrightarrow> single_flight (dequeue_settle dm item result)"
  by (simp add: single_flight_def dequeue_settle_def Let_def split: outcome.splits option.splits)

lemma single_flight_dispose: "single_flight dm \<Longrightarrow> single_flight (dispose dm)"
  by (simp add: single_flight_def dispose_def)

lemma single_flight_reconnectDevice:
  "single_flight dm \<Longrightarrow> single_flight (fst (reconnectDevice dm address))"
proof -
  assume sf: "single_flight dm"
  have upd: "single_flight (dm\<lparr>connectRetryCounts := m\<rparr>)" for m
    using sf by (simp add: single_flight_def)
  show ?thesis
    by (simp add: reconnectDevice_def Let_def sf upd single_flight_executeCommand
        split: option.splits)
qed

lemma single_flight_step: "single_flight dm \<Longrightarrow> single_flight (dm_step dm ev)"
proof (cases ev)
  case (ExecuteCommand cmd)
  assume "single_flight dm"
  then show ?thesis using ExecuteCommand by (simp add: dm_step_def single_flight_executeCommand)
next
  case (Settle i result)
  assume sf: "single_flight dm"
  show ?thesis
  proof (cases "i < length (inFlight dm)")
    case True
    with sf have "take i (inFlight dm) @ drop (Suc i) (inFlight dm) = []"
      by (simp add: single_flight_def)
    with True Settle show ?thesis
      by (simp add: dm_step_def single_flight_dequeue_settle)
  next
    case False
    with sf Settle show ?thesis by (simp add: dm_step_def)
  qed
next
  case Immediate
  assume sf: "single_flight dm"
  have "single_flight (dm\<lparr>pendingImmediates := n\<rparr>)" for n
    using sf by (simp add: single_flight_def)
  then show ?thesis using Immediate sf
    by (simp add: dm_step_def single_flight_dequeue_start)
next
  case Dispose
  assume "single_flight dm"
  then show ?thesis using Dispose by (simp add: dm_step_def single_flight_dispose)
next
  case (ReconnectDevice address)
  assume "single_flight dm"
  then show ?thesis using ReconnectDevice
    by (simp add: dm_step_def single_flight_reconnectDevice)
next
  case (AdapterDevices uuids)
  assume "single_flight dm"
  then show ?thesis using AdapterDevices
    by (simp add: dm_step_def single_flight_def)
qed

lemma single_flight_run: "single_flight dm \<Longrightarrow> single_flight (dm_run dm evs)"
  unfolding dm_run_def
  by (induction evs arbitrary: dm) (simp_all add: single_flight_step)

lemma isExecuting_dequeue_start: "isExecuting dm \<Longrightarrow> dequeue_start dm = dm"
  by (simp add: dequeue_start_def)

lemma isExecuting_executeCommand: "isExecuting dm \<Longrightarrow> isExecuting (executeCommand dm cmd)"
  by (simp add: executeCommand_def dequeue_start_def)

lemma isExecuting_kept:
  assumes "isExecuting dm" and "\<not> isExecuting (dm_step dm ev)"
  shows "\<exists>i result. ev = Settle i result \<and> i < length (inFlight dm)"
proof (cases ev)
  case (ExecuteCommand cmd)
  with assms show ?thesis by (simp add: dm_step_def isExecuting_executeCommand)
next
  case (Settle i result)
  with assms show ?thesis by (auto simp: dm_step_def split: if_splits)
next
  case Immediate
  with assms show ?thesis by (auto simp: dm_step_def dequeue_start_def split: if_splits)
next
  case Dispose
  with assms show ?thesis by (simp add: dm_step_def dispose_def)
next
  case (ReconnectDevice address)
  with assms show ?thesis
    by (auto simp: dm_step_def reconnectDevice_def Let_def executeCommand_def dequeue_start_def
        split: if_splits option.splits)
next
  case (AdapterDevices uuids)
  with assms show ?thesis by (simp add: dm_step_def)
qed


lemma includes_str_iff: "includes_str s sub = (\<exists>a b. s = a @ sub @ b)"
proof (induction s)
  case Nil
  then show ?case by auto
next
  case (Cons c cs)
  show ?case
  proof
    assume "includes_str (c # cs) sub"
    then consider "prefix sub (c # cs)" | "includes_str cs sub" by auto
    then show "\<exists>a b. c # cs = a @ sub @ b"
    proof cases
      case 1
      then obtain b where "c # cs = sub @ b" by (auto simp: prefix_def)
      then have "c # cs = [] @ sub @ b" by simp
      then show ?thesis by blast
    next
      case 2
      with Cons obtain a b where "cs = a @ sub @ b" by auto
      then have "c # cs = (c # a) @ sub @ b" by simp
      then show ?thesis by blast
    qed
  next
    assume "\<exists>a b. c # cs = a @ sub @ b"
    then obtain a b where ab: "c # cs = a @ sub @ b" by auto
    show "includes_str (c # cs) sub"
    proof (cases a)
      case Nil
      with ab have "prefix sub (c # cs)" by (simp add: prefix_def)
      then show ?thesis by simp
    next
      case (Cons x a')
      with ab have "cs = a' @ sub @ b" by simp
      with Cons.IH have "includes_str cs sub" by auto
      then show ?thesis by simp
    qed
  qed
qed

lemma dequeue_start_pops:
  assumes "\<not> isDisposed dm" "\<not> isExecuting dm" "bluetoothCommandQueue dm = c # q"
  shows "dequeue_start dm = dm\<lparr> isExecuting := True, bluetoothCommandQueue := q,
           inFlight := inFlight dm @ [c\<lparr>retryCount := retryCount c + 1\<rparr>] \<rparr>"
  using assms by (simp add: dequeue_start_def)

lemma settle_rejected:
  assumes "inFlight dm = [queueItem]"
  shows "dm_step dm (Settle 0 (Rejected (Some message))) =
     dm\<lparr> inFlight := [],
         bluetoothCommandQueue :=
           (if includes_str message ''Not connected'' then bluetoothCommandQueue dm
            else if retryCount queueItem < maxRetries queueItem
            then queueItem # bluetoothCommandQueue dm
            else bluetoothCommandQueue dm),
         isExecuting := False,
         pendingImmediates := pendingImmediates dm + 1 \<rparr>"
  using assms by (simp add: dm_step_def dequeue_settle_def Let_def)

text \<open>
  Claim C2.  For every sequence of events on one DeviceManager (commands submitted,
  invocations settling, deferred pump re-entries, reconnects, disposal) at most one
  queued command is executing, and \<open>isExecuting\<close> is set exactly while one is.
  \<open>dequeue\<close> returns without popping when \<open>isExecuting\<close> is set; when it pops, it sets
  \<open>isExecuting\<close> in the same turn in which it starts the invocation; and the only event
  that clears \<open>isExecuting\<close> is the settling of an invocation in flight.
\<close>

theorem at_most_one_command_executing:
  "length (inFlight (dm_run (new_DeviceManager cap) evs)) \<le> 1
   \<and> isExecuting (dm_run (new_DeviceManager cap) evs)
       = (inFlight (dm_run (new_DeviceManager cap) evs) \<noteq> [])
   \<and> (isExecuting dm \<longrightarrow> dequeue_start dm = dm)
   \<and> (\<not> isDisposed dm \<and> \<not> isExecuting dm \<and> bluetoothCommandQueue dm = c # q \<longrightarrow>
        dequeue_start dm = dm\<lparr> isExecuting := True, bluetoothCommandQueue := q,
           inFlight := inFlight dm @ [c\<lparr>retryCount := retryCount c + 1\<rparr>] \<rparr>)
   \<and> (isExecuting dm \<and> \<not> isExecuting (dm_step dm ev) \<longrightarrow>
        (\<exists>i result. ev = Settle i result \<and> i < length (inFlight dm)))"
proof -
  have "single_flight (dm_run (new_DeviceManager cap) evs)"
    by (rule single_flight_run) (rule single_flight_new)
  then show ?thesis
    using isExecuting_dequeue_start [of dm] dequeue_start_pops [of dm c q]
      isExecuting_kept [of dm ev]
    by (simp add: single_flight_def)
qed

lemma sample_queue_state:
  "dm_run (new_DeviceManager 5) [ExecuteCommand sample_setAngle, ExecuteCommand sample_getPasskey]
   = (new_DeviceManager 5)
       \<lparr> bluetoothCommandQueue :=
           [\<lparr> command = ReadValue Passkey, maxRetries = 5, name = ''getPasskey'', retryCount = 0 \<rparr>],
         isExecuting := True,
         inFlight :=
           [\<lparr> command = WriteValueWithResponse Angle [100], maxRetries = 5, name = ''setAngle'',
              retryCount = 1 \<rparr>] \<rparr>"
  by (simp add: dm_run_def dm_step_def executeCommand_def dequeue_start_def
      new_DeviceManager_def sample_setAngle_def sample_getPasskey_def)

theorem at_most_one_command_executing_witness:
  "isExecuting (dm_run (new_DeviceManager 5)
       [ExecuteCommand sample_setAngle, ExecuteCommand sample_getPasskey])
   \<and> dequeue_start (dm_run (new_DeviceManager 5)
       [ExecuteCommand sample_setAngle, ExecuteCommand sample_getPasskey])
     = dm_run (new_DeviceManager 5)
       [ExecuteCommand sample_setAngle, ExecuteCommand sample_getPasskey]
   \<and> length (inFlight (dm_run (new_DeviceManager 5)
       [ExecuteCommand sample_setAngle, ExecuteCommand sample_getPasskey])) \<le> 1
   \<and> \<not> isExecuting (dm_step (dm_run (new_DeviceManager 5)
       [ExecuteCommand sample_setAngle, ExecuteCommand sample_getPasskey]) (Settle 0 Resolved))
   \<and> (\<exists>i result. (Settle 0 Resolved :: dm_event) = Settle i result
        \<and> i < length (inFlight (dm_run (new_DeviceManager 5)
             [ExecuteCommand sample_setAngle, ExecuteCommand sample_getPasskey])))
   \<and> \<not> isDisposed (new_DeviceManager 5\<lparr>bluetoothCommandQueue :=
          [\<lparr> command = ReadValue Passkey, maxRetries = 5, name = ''getPasskey'', retryCount = 0 \<rparr>]\<rparr>)
   \<and> inFlight (dequeue_start (new_DeviceManager 5\<lparr>bluetoothCommandQueue :=
          [\<lparr> command = ReadValue Passkey, maxRetries = 5, name = ''getPasskey'', retryCount = 0 \<rparr>]\<rparr>))
      = [\<lparr> command = ReadValue Passkey, maxRetries = 5, name = ''getPasskey'', retryCount = 1 \<rparr>]"
proof -
  let ?D = "dm_run (new_DeviceManager 5)
       [ExecuteCommand sample_setAngle, ExecuteCommand sample_getPasskey]"
  let ?Q = "new_DeviceManager 5\<lparr>bluetoothCommandQueue :=
          [\<lparr> command = ReadValue Passkey, maxRetries = 5, name = ''getPasskey'', retryCount = 0 \<rparr>]\<rparr>"
  have ex: "isExecuting ?D" by (simp add: sample_queue_state)
  have cl: "\<not> isExecuting (dm_step ?D (Settle 0 Resolved))"
    by (simp add: sample_queue_state) (simp add: dm_step_def dequeue_settle_def new_DeviceManager_def)
  have q: "\<not> isDisposed ?Q \<and> \<not> isExecuting ?Q \<and> bluetoothCommandQueue ?Q =
      \<lparr> command = ReadValue Passkey, maxRetries = 5, name = ''getPasskey'', retryCount = 0 \<rparr> # []"
    by (simp add: new_DeviceManager_def)
  show ?thesis
    using at_most_one_command_executing [of 5
        "[ExecuteCommand sample_setAngle, ExecuteCommand sample_getPasskey]" ?D
        _ _ "Settle 0 Resolved"]
      at_most_one_command_executing [of 5 "[]" ?Q
        "\<lparr> command = ReadValue Passkey, maxRetries = 5, name = ''getPasskey'', retryCount = 0 \<rparr>"
        "[]" Immediate]
      ex cl q
    by (simp add: new_DeviceManager_def)
qed


text \<open>
  A rejection with a message is handled as the queue protocol says: dropped when the
  message contains "Not connected", put back at the head while the retry count (incremented
  when the item was popped) is below \<open>maxRetries\<close>, dropped otherwise; \<open>isExecuting\<close> is
  cleared and one re-entry of the pump is scheduled.
\<close>

lemma settle_rejected_with_message:
  "(\<not> isDisposed dm \<and> \<not> isExecuting dm \<and> bluetoothCommandQueue dm = c # q \<longrightarrow>
      inFlight (dequeue_start dm) = inFlight dm @ [c\<lparr>retryCount := retryCount c + 1\<rparr>])
   \<and> (inFlight dm' = [queueItem] \<longrightarrow>
        dm_step dm' (Settle 0 (Rejected (Some message))) =
          dm'\<lparr> inFlight := [],
               bluetoothCommandQueue :=
                 (if \<exists>before after. message = before @ ''Not connected'' @ after
                  then bluetoothCommandQueue dm'
                  else if retryCount queueItem < maxRetries queueItem
                  then queueItem # bluetoothCommandQueue dm'
                  else bluetoothCommandQueue dm'),
               isExecuting := False,
               pendingImmediates := pendingImmediates dm' + 1 \<rparr>)"
  using dequeue_start_pops [of dm c q] settle_rejected [of dm' queueItem message]
  by (simp add: includes_str_iff)

lemma settle_rejected_without_message:
  assumes "inFlight dm = [queueItem]"
  shows "dm_step dm (Settle 0 (Rejected None)) = dm\<lparr> inFlight := [], isExecuting := False \<rparr>"
  using assms by (simp add: dm_step_def dequeue_settle_def)



section \<open>Reconnecting\<close>

text \<open>When \<open>reconnectDevice\<close> attempts a reconnect, and what it does to the counter.\<close>

lemma reconnectDevice_attempted_iff:
  "(snd (reconnectDevice dm address) \<noteq> NotAttempted) =
     (maxConnectRetries dm = - 1
      \<or> connectRetryCounts dm address = None
      \<or> connectRetryCounts dm address = Some 0
      \<or> (\<exists>c. connectRetryCounts dm address = Some c \<and> c \<le> maxConnectRetries dm))"
  by (auto simp: reconnectDevice_def Let_def split: option.splits)

lemma reconnectDevice_unlimited:
  "maxConnectRetries dm = - 1 \<Longrightarrow> snd (reconnectDevice dm address) \<noteq> NotAttempted"
  by (simp add: reconnectDevice_attempted_iff)

lemma reconnectDevice_counter:
  "snd (reconnectDevice dm address) \<noteq> NotAttempted \<Longrightarrow>
     connectRetryCounts (fst (reconnectDevice dm address)) address =
       Some ((case connectRetryCounts dm address of None \<Rightarrow> 0 | Some c \<Rightarrow> c) + 1)"
  by (auto simp: reconnectDevice_def Let_def executeCommand_def dequeue_start_def
      split: option.splits if_splits list.splits)

lemma reconnectDevice_which:
  "snd (reconnectDevice dm address) = DeviceAddedReentry \<Longrightarrow>
     (\<exists>available. adapter dm = Some available \<and> address \<in> set available)"
  "snd (reconnectDevice dm address) = DiscoveryRound \<Longrightarrow>
     (\<exists>available. adapter dm = Some available \<and> address \<notin> set available)"
  by (auto simp: reconnectDevice_def Let_def split: option.splits if_splits)

text \<open>
  Claim C9.  The claim asks that \<open>reconnectDevice\<close> reconnects exactly when the cap is
  \<open>-1\<close> or the counter before the call is under the cap.  With a cap of 1 the first call
  for an address (counter unset) reconnects and leaves the counter at 1; the second call
  finds the counter at the cap, not under it, and the code reconnects again (through the
  queued device-added re-entry, the address being available) and moves the counter to 2.
  With a cap of 0 the first call reconnects as well.
\<close>

theorem reconnectDevice_at_cap:
  "maxConnectRetries (dm_run (new_DeviceManager 1)
      [AdapterDevices [sample_mac], ReconnectDevice sample_mac, Settle 0 Resolved]) = 1
   \<and> connectRetryCounts (dm_run (new_DeviceManager 1)
      [AdapterDevices [sample_mac], ReconnectDevice sample_mac, Settle 0 Resolved]) sample_mac
     = Some 1
   \<and> snd (reconnectDevice (dm_run (new_DeviceManager 1)
      [AdapterDevices [sample_mac], ReconnectDevice sample_mac, Settle 0 Resolved]) sample_mac)
     = DeviceAddedReentry
   \<and> connectRetryCounts (fst (reconnectDevice (dm_run (new_DeviceManager 1)
      [AdapterDevices [sample_mac], ReconnectDevice sample_mac, Settle 0 Resolved]) sample_mac))
        sample_mac = Some 2
   \<and> snd (reconnectDevice ((new_DeviceManager 0)\<lparr>adapter := Some []\<rparr>) sample_mac)
     = DiscoveryRound"
  by (simp add: dm_run_def dm_step_def reconnectDevice_def executeCommand_def dequeue_start_def
      dequeue_settle_def new_DeviceManager_def sample_mac_def Let_def)

section \<open>The unlock handshake\<close>

lemma bindCharacteristics_keeps:
  "isUnlocked (bindCharacteristics b cs) = isUnlocked b"
  "passkey (bindCharacteristics b cs) = passkey b"
  "blindPasskey (bindCharacteristics b cs) = blindPasskey b"
  "emitted (bindCharacteristics b cs) = emitted b"
  "unlockAttempts (bindCharacteristics b cs) = unlockAttempts b"
  "maxUnlockRetries (bindCharacteristics b cs) = maxUnlockRetries b"
  "angle (bindCharacteristics b cs) = angle b"
  by (induction cs arbitrary: b) simp_all

lemmas blind_defs = blind_step_def onParentConnect_def unlock_def setPasskey_def
  queuePasskeyRead_def clearUnlockTimer_def startUnlockTimerIfLocked_def onPasskeyChanged_def
  onAngleChanged_def setAngle_def disconnect_def clearCharacteristics_def Let_def

lemma blind_step_blindPasskey: "blindPasskey (blind_step b ev) = blindPasskey b"
  by (cases ev)
    (simp_all add: blind_defs bindCharacteristics_keeps split: sum.splits)

lemma blind_step_passkey:
  "passkey (blind_step b ev) = passkey b
   \<or> (\<exists>buf. ev = PasskeyNotification buf \<and> passkey (blind_step b ev) = Some (toHex buf))"
  by (cases ev)
    (simp_all add: blind_defs bindCharacteristics_keeps split: sum.splits)

lemma blind_step_isUnlocked:
  assumes "isUnlocked (blind_step b ev)"
  shows "(isUnlocked b \<and> passkey (blind_step b ev) = passkey b)
   \<or> (\<exists>buf. ev = PasskeyNotification buf \<and> passkey (blind_step b ev) = Some (toHex buf)
        \<and> toLowerCase (toHex buf) = toLowerCase (blindPasskey b) @ ''00'')"
  using assms
  by (cases ev)
    (auto simp: blind_defs bindCharacteristics_keeps split: sum.splits if_splits)

lemma blind_run_snoc: "blind_run b (evs @ [ev]) = blind_step (blind_run b evs) ev"
  by (simp add: blind_run_def)

lemma blind_run_blindPasskey: "blindPasskey (blind_run b evs) = blindPasskey b"
  by (induction evs rule: rev_induct) (simp_all add: blind_run_snoc blind_step_blindPasskey, simp add: blind_run_def)


lemma blind_run_passkey_received:
  "passkey (blind_run (new_Blind pk n) evs) = Some h \<Longrightarrow>
     \<exists>buf. PasskeyNotification buf \<in> set evs \<and> toHex buf = h"
proof (induction evs arbitrary: h rule: rev_induct)
  case Nil
  then show ?case by (simp add: blind_run_def new_Blind_def)
next
  case (snoc ev evs)
  from blind_step_passkey [of "blind_run (new_Blind pk n) evs" ev]
  show ?case
  proof
    assume "passkey (blind_step (blind_run (new_Blind pk n) evs) ev)
            = passkey (blind_run (new_Blind pk n) evs)"
    with snoc.prems have "passkey (blind_run (new_Blind pk n) evs) = Some h"
      by (simp add: blind_run_snoc)
    with snoc.IH show ?thesis by auto
  next
    assume "\<exists>buf. ev = PasskeyNotification buf
            \<and> passkey (blind_step (blind_run (new_Blind pk n) evs) ev) = Some (toHex buf)"
    with snoc.prems show ?thesis by (auto simp: blind_run_snoc)
  qed
qed

lemma blind_run_unlocked_passkey:
  "isUnlocked (blind_run (new_Blind pk n) evs) \<Longrightarrow>
     \<exists>h. passkey (blind_run (new_Blind pk n) evs) = Some h
         \<and> toLowerCase h = toLowerCase pk @ ''00''"
proof (induction evs rule: rev_induct)
  case Nil
  then show ?case by (simp add: blind_run_def new_Blind_def)
next
  case (snoc ev evs)
  have pk: "blindPasskey (blind_run (new_Blind pk n) evs) = pk"
    by (simp add: blind_run_blindPasskey new_Blind_def)
  from snoc.prems have "isUnlocked (blind_step (blind_run (new_Blind pk n) evs) ev)"
    by (simp add: blind_run_snoc)
  from blind_step_isUnlocked [OF this] show ?case
  proof
    assume "isUnlocked (blind_run (new_Blind pk n) evs)
          \<and> passkey (blind_step (blind_run (new_Blind pk n) evs) ev)
            = passkey (blind_run (new_Blind pk n) evs)"
    with snoc.IH show ?thesis by (simp add: blind_run_snoc)
  next
    assume "\<exists>buf. ev = PasskeyNotification buf
        \<and> passkey (blind_step (blind_run (new_Blind pk n) evs) ev) = Some (toHex buf)
        \<and> toLowerCase (toHex buf)
            = toLowerCase (blindPasskey (blind_run (new_Blind pk n) evs)) @ ''00''"
    with pk show ?thesis by (auto simp: blind_run_snoc)
  qed
qed

lemma onPasskeyChanged_match:
  assumes "Some (toHex buf) \<noteq> passkey b"
    and "toLowerCase (toHex buf) = toLowerCase (blindPasskey b) @ ''00''"
  shows "onPasskeyChanged b buf =
           b\<lparr> passkey := Some (toHex buf), isUnlocked := True, unlockAttempts := 0,
              unlockTimer := False,
              emitted := emitted b @ [passkey_changed (toHex buf), unlocked] \<rparr>"
proof -
  from assms(2) have "toHex buf \<noteq> []" by (auto simp: toLowerCase_def)
  with assms show ?thesis
    by (simp add: onPasskeyChanged_def clearUnlockTimer_def Let_def)
qed

lemma onPasskeyChanged_repeat:
  "Some (toHex buf) = passkey b \<Longrightarrow> onPasskeyChanged b buf = b"
  by (simp add: onPasskeyChanged_def Let_def)

lemma toLowerChar_hexDigit: "n < 16 \<Longrightarrow> toLowerChar (hexDigit n) = hexDigit n"
proof -
  assume "n < 16"
  then have "n \<in> set [0..<16]" by simp
  then show ?thesis
    by (auto simp: upt_rec hexDigit_def toLowerChar_def Let_def)
qed

lemma toLowerCase_toHexByte: "toLowerCase (toHexByte x) = toHexByte x"
proof -
  have "unat x div 16 < 16"
    using unsigned_less [of x, where 'a = nat] by simp
  moreover have "unat x mod 16 < 16" by simp
  ultimately show ?thesis
    by (simp add: toLowerCase_def toHexByte_def toLowerChar_hexDigit)
qed

lemma toLowerCase_toHex: "toLowerCase (toHex buf) = toHex buf"
proof (induction buf)
  case Nil
  then show ?case by (simp add: toLowerCase_def toHex_def)
next
  case (Cons x xs)
  have "toLowerCase (toHex (x # xs)) = toLowerCase (toHexByte x) @ toLowerCase (toHex xs)"
    by (simp add: toLowerCase_def toHex_def)
  with Cons show ?case by (simp add: toLowerCase_toHexByte toHex_def)
qed

lemma blind_step_unlocked_idle:
  assumes "isUnlocked (blind_step b ev)"
    and "isUnlocked b \<Longrightarrow> unlockAttempts b = 0 \<and> \<not> unlockTimer b"
  shows "unlockAttempts (blind_step b ev) = 0 \<and> \<not> unlockTimer (blind_step b ev)"
  using assms
  by (cases ev)
    (auto simp: blind_defs bindCharacteristics_keeps split: sum.splits if_splits)

lemma blind_run_unlocked_idle:
  "isUnlocked (blind_run (new_Blind pk n) evs) \<Longrightarrow>
     unlockAttempts (blind_run (new_Blind pk n) evs) = 0
     \<and> \<not> unlockTimer (blind_run (new_Blind pk n) evs)"
proof (induction evs rule: rev_induct)
  case Nil
  then show ?case by (simp add: blind_run_def new_Blind_def)
next
  case (snoc ev evs)
  from snoc.prems have "isUnlocked (blind_step (blind_run (new_Blind pk n) evs) ev)"
    by (simp add: blind_run_snoc)
  from blind_step_unlocked_idle [OF this] snoc.IH show ?case
    by (simp add: blind_run_snoc)
qed

lemma blind_run_unlocked_repeat:
  assumes u: "isUnlocked (blind_run (new_Blind pk n) evs)"
    and m: "toLowerCase (toHex buf) = toLowerCase pk @ ''00''"
  shows "onPasskeyChanged (blind_run (new_Blind pk n) evs) buf = blind_run (new_Blind pk n) evs"
proof -
  from blind_run_unlocked_passkey [OF u] obtain h where
    h: "passkey (blind_run (new_Blind pk n) evs) = Some h" "toLowerCase h = toLowerCase pk @ ''00''"
    by auto
  from blind_run_passkey_received [OF h(1)] obtain buf' where "toHex buf' = h" by auto
  then have "toLowerCase h = h" using toLowerCase_toHex [of buf'] by simp
  with h(2) m have "toHex buf = h" by (simp add: toLowerCase_toHex)
  with h(1) show ?thesis by (simp add: onPasskeyChanged_repeat)
qed

text \<open>
  Claim C4, as amended.  In every reachable state of a Blind instance \<open>isUnlocked\<close> is
  true only if a Passkey notification was received whose hex rendering equals the
  configured passkey followed by "00" (compared case-insensitively); that rendering is
  then the stored passkey value.  On such a notification whose hex rendering differs from
  the stored passkey value the instance is unlocked, the attempt counter is reset to 0,
  the unlock timer is cancelled and the "unlocked" event is emitted.  On such a
  notification received in a reachable state that is already unlocked nothing changes:
  the attempt counter is 0, the unlock timer is not set, and no event is emitted.
\<close>

theorem unlocked_only_by_passkey_echo:
  "(isUnlocked (blind_run (new_Blind pk n) evs) \<longrightarrow>
      (\<exists>buf. PasskeyNotification buf \<in> set evs
           \<and> passkey (blind_run (new_Blind pk n) evs) = Some (toHex buf)
           \<and> toLowerCase (toHex buf) = toLowerCase pk @ ''00''))
   \<and> (Some (toHex buf) \<noteq> passkey b
        \<and> toLowerCase (toHex buf) = toLowerCase (blindPasskey b) @ ''00'' \<longrightarrow>
        isUnlocked (onPasskeyChanged b buf)
        \<and> unlockAttempts (onPasskeyChanged b buf) = 0
        \<and> \<not> unlockTimer (onPasskeyChanged b buf)
        \<and> emitted (onPasskeyChanged b buf)
            = emitted b @ [passkey_changed (toHex buf), unlocked])
   \<and> (isUnlocked (blind_run (new_Blind pk n) evs)
        \<and> toLowerCase (toHex buf) = toLowerCase pk @ ''00'' \<longrightarrow>
        onPasskeyChanged (blind_run (new_Blind pk n) evs) buf = blind_run (new_Blind pk n) evs
        \<and> unlockAttempts (blind_run (new_Blind pk n) evs) = 0
        \<and> \<not> unlockTimer (blind_run (new_Blind pk n) evs))"
proof (intro conjI impI)
  assume u: "isUnlocked (blind_run (new_Blind pk n) evs)"
  from blind_run_unlocked_passkey [OF u] obtain h where
    h: "passkey (blind_run (new_Blind pk n) evs) = Some h" "toLowerCase h = toLowerCase pk @ ''00''"
    by auto
  from blind_run_passkey_received [OF h(1)] obtain buf where
    "PasskeyNotification buf \<in> set evs" "toHex buf = h" by auto
  with h show "\<exists>buf. PasskeyNotification buf \<in> set evs
           \<and> passkey (blind_run (new_Blind pk n) evs) = Some (toHex buf)
           \<and> toLowerCase (toHex buf) = toLowerCase pk @ ''00''" by auto
next
  assume a: "Some (toHex buf) \<noteq> passkey b
        \<and> toLowerCase (toHex buf) = toLowerCase (blindPasskey b) @ ''00''"
  then have eq: "onPasskeyChanged b buf =
           b\<lparr> passkey := Some (toHex buf), isUnlocked := True, unlockAttempts := 0,
              unlockTimer := False,
              emitted := emitted b @ [passkey_changed (toHex buf), unlocked] \<rparr>"
    by (simp add: onPasskeyChanged_match)
  show "isUnlocked (onPasskeyChanged b buf)" by (simp add: eq)
  show "unlockAttempts (onPasskeyChanged b buf) = 0" by (simp add: eq)
  show "\<not> unlockTimer (onPasskeyChanged b buf)" by (simp add: eq)
  show "emitted (onPasskeyChanged b buf)
            = emitted b @ [passkey_changed (toHex buf), unlocked]" by (simp add: eq)
next
  assume a: "isUnlocked (blind_run (new_Blind pk n) evs)
        \<and> toLowerCase (toHex buf) = toLowerCase pk @ ''00''"
  then show "onPasskeyChanged (blind_run (new_Blind pk n) evs) buf
        = blind_run (new_Blind pk n) evs"
    by (simp add: blind_run_unlocked_repeat)
  from a blind_run_unlocked_idle [of pk n evs]
  show "unlockAttempts (blind_run (new_Blind pk n) evs) = 0"
    "\<not> unlockTimer (blind_run (new_Blind pk n) evs)" by simp_all
qed

lemma toHex_echo: "toHex [0, 1, 2, 3, 4, 5, 0] = ''00010203040500''"
  by (simp add: toHex_def toHexByte_def hexDigit_def)

lemma lower_sample: "toLowerCase ''00010203040500'' = ''00010203040500''"
   "toLowerCase ''000102030405'' = ''000102030405''"
  by (simp_all add: toLowerCase_def toLowerChar_def sample_passkey_def)

lemma first_session:
  "blind_run (new_Blind sample_passkey 5)
     [ParentConnect [PASSKEY_CHARACTERISTIC_UUID], PasskeyWritten,
      PasskeyNotification [0, 1, 2, 3, 4, 5, 0], PasskeyReadSettled] 
   = (new_Blind sample_passkey 5)
       \<lparr> isUnlocked := True, passkey := Some ''00010203040500'',
         passkeyCharacteristic := Some PASSKEY_CHARACTERISTIC_UUID,
         emitted := [passkey_changed ''00010203040500'', unlocked],
         submitted := [\<lparr> command = WriteValueWithResponse Passkey [0, 1, 2, 3, 4, 5, 1],
                           maxRetries = 5, name = ''setPasskey'' \<rparr>,
                       \<lparr> command = ReadValue Passkey, maxRetries = 5, name = ''getPasskey'' \<rparr>] \<rparr>"
  apply (simp add: blind_run_def blind_step_def onParentConnect_def new_Blind_def)
  apply (simp add: ANGLE_CHARACTERISTIC_UUID_def PASSKEY_CHARACTERISTIC_UUID_def unlock_def setPasskey_def queuePasskeyRead_def Let_def toHex_echo sample_passkey_def
      onPasskeyChanged_def lower_sample clearUnlockTimer_def startUnlockTimerIfLocked_def unhex_def)
  done


lemma second_session:
  "blind_run (new_Blind sample_passkey 5)
     [ParentConnect [PASSKEY_CHARACTERISTIC_UUID], PasskeyWritten,
      PasskeyNotification [0, 1, 2, 3, 4, 5, 0], PasskeyReadSettled, Disconnect,
      ParentConnect [PASSKEY_CHARACTERISTIC_UUID], PasskeyWritten, PasskeyReadSettled]
   = (new_Blind sample_passkey 5)
       \<lparr> isUnlocked := False, passkey := Some ''00010203040500'',
         passkeyCharacteristic := Some PASSKEY_CHARACTERISTIC_UUID,
         unlockTimer := True, unlockAttempts := 1,
         emitted := [passkey_changed ''00010203040500'', unlocked],
         submitted := [\<lparr> command = WriteValueWithResponse Passkey [0, 1, 2, 3, 4, 5, 1],
                           maxRetries = 5, name = ''setPasskey'' \<rparr>,
                       \<lparr> command = ReadValue Passkey, maxRetries = 5, name = ''getPasskey'' \<rparr>,
                       \<lparr> command = WriteValueWithResponse Passkey [0, 1, 2, 3, 4, 5, 1],
                           maxRetries = 5, name = ''setPasskey'' \<rparr>,
                       \<lparr> command = ReadValue Passkey, maxRetries = 5, name = ''getPasskey'' \<rparr>] \<rparr>"
  apply (simp add: blind_run_def blind_step_def onParentConnect_def new_Blind_def)
  apply (simp add: ANGLE_CHARACTERISTIC_UUID_def PASSKEY_CHARACTERISTIC_UUID_def unlock_def
      setPasskey_def queuePasskeyRead_def Let_def toHex_echo sample_passkey_def
      onPasskeyChanged_def lower_sample clearUnlockTimer_def startUnlockTimerIfLocked_def unhex_def
      disconnect_def clearCharacteristics_def)
  done

lemma echo_matches:
  "toLowerCase (toHex [0, 1, 2, 3, 4, 5, 0]) = toLowerCase sample_passkey @ ''00''"
  by (simp add: toHex_echo lower_sample sample_passkey_def)

lemma unlocking_session:
  "blind_run (new_Blind sample_passkey 5)
     [ParentConnect [PASSKEY_CHARACTERISTIC_UUID], PasskeyWritten,
      PasskeyNotification [0, 1, 2, 3, 4, 5, 0]]
   = (new_Blind sample_passkey 5)
       \<lparr> isUnlocked := True, passkey := Some ''00010203040500'',
         passkeyCharacteristic := Some PASSKEY_CHARACTERISTIC_UUID,
         emitted := [passkey_changed ''00010203040500'', unlocked],
         submitted := [\<lparr> command = WriteValueWithResponse Passkey [0, 1, 2, 3, 4, 5, 1],
                           maxRetries = 5, name = ''setPasskey'' \<rparr>,
                       \<lparr> command = ReadValue Passkey, maxRetries = 5, name = ''getPasskey'' \<rparr>] \<rparr>"
  apply (simp add: blind_run_def blind_step_def onParentConnect_def new_Blind_def)
  apply (simp add: ANGLE_CHARACTERISTIC_UUID_def PASSKEY_CHARACTERISTIC_UUID_def unlock_def
      setPasskey_def queuePasskeyRead_def Let_def toHex_echo sample_passkey_def
      onPasskeyChanged_def lower_sample clearUnlockTimer_def unhex_def)
  done

text \<open>
  The claim as first stated fails on a notification that repeats the stored passkey value.
  A blind connects, writes its passkey and receives the matching echo: it unlocks and
  emits "passkey-changed" and "unlocked".  The same echo arrives once more (the handshake
  itself reads the characteristic back after the write): the handler finds the value it
  has stored and returns, so on this matching notification no "unlocked" event is emitted.
\<close>

theorem repeated_echo_emits_nothing:
  "toLowerCase (toHex [0, 1, 2, 3, 4, 5, 0]) = toLowerCase sample_passkey @ ''00''
   \<and> emitted (blind_run (new_Blind sample_passkey 5)
       [ParentConnect [PASSKEY_CHARACTERISTIC_UUID], PasskeyWritten,
        PasskeyNotification [0, 1, 2, 3, 4, 5, 0]])
     = [passkey_changed ''00010203040500'', unlocked]
   \<and> emitted (blind_run (new_Blind sample_passkey 5)
       [ParentConnect [PASSKEY_CHARACTERISTIC_UUID], PasskeyWritten,
        PasskeyNotification [0, 1, 2, 3, 4, 5, 0], PasskeyNotification [0, 1, 2, 3, 4, 5, 0]])
     = [passkey_changed ''00010203040500'', unlocked]"
proof -
  let ?evs = "[ParentConnect [PASSKEY_CHARACTERISTIC_UUID], PasskeyWritten,
        PasskeyNotification [0, 1, 2, 3, 4, 5, 0]]"
  have "blind_run (new_Blind sample_passkey 5) (?evs @ [PasskeyNotification [0, 1, 2, 3, 4, 5, 0]])
        = onPasskeyChanged (blind_run (new_Blind sample_passkey 5) ?evs) [0, 1, 2, 3, 4, 5, 0]"
    by (simp only: blind_run_snoc) (simp add: blind_step_def)
  also have "\<dots> = blind_run (new_Blind sample_passkey 5) ?evs"
    by (rule onPasskeyChanged_repeat) (simp add: unlocking_session toHex_echo)
  finally have "blind_run (new_Blind sample_passkey 5)
       (?evs @ [PasskeyNotification [0, 1, 2, 3, 4, 5, 0]])
      = blind_run (new_Blind sample_passkey 5) ?evs" .
  then show ?thesis
    by (simp add: echo_matches) (simp add: unlocking_session)
qed

text \<open>
  The statement above says nothing about a matching notification that repeats the stored
  value while the blind is locked.  That happens on an instance used for a second
  connection, because neither the disconnect nor the connect handler clears the stored
  passkey value: the blind unlocks, disconnects and connects again; its second unlock
  attempt is under way and the unlock timer runs when the matching echo arrives.  The echo
  equals the value stored during the first connection and is ignored: the blind stays
  locked, the attempt counter stays at 1, the timer stays set and no event is emitted.
\<close>

lemma repeated_echo_after_reconnect:
  "toLowerCase (toHex [0, 1, 2, 3, 4, 5, 0]) = toLowerCase sample_passkey @ ''00''
   \<and> \<not> isUnlocked (blind_run (new_Blind sample_passkey 5)
       [ParentConnect [PASSKEY_CHARACTERISTIC_UUID], PasskeyWritten,
        PasskeyNotification [0, 1, 2, 3, 4, 5, 0], PasskeyReadSettled, Disconnect,
        ParentConnect [PASSKEY_CHARACTERISTIC_UUID], PasskeyWritten, PasskeyReadSettled,
        PasskeyNotification [0, 1, 2, 3, 4, 5, 0]])
   \<and> unlockAttempts (blind_run (new_Blind sample_passkey 5)
       [ParentConnect [PASSKEY_CHARACTERISTIC_UUID], PasskeyWritten,
        PasskeyNotification [0, 1, 2, 3, 4, 5, 0], PasskeyReadSettled, Disconnect,
        ParentConnect [PASSKEY_CHARACTERISTIC_UUID], PasskeyWritten, PasskeyReadSettled,
        PasskeyNotification [0, 1, 2, 3, 4, 5, 0]]) = 1
   \<and> unlockTimer (blind_run (new_Blind sample_passkey 5)
       [ParentConnect [PASSKEY_CHARACTERISTIC_UUID], PasskeyWritten,
        PasskeyNotification [0, 1, 2, 3, 4, 5, 0], PasskeyReadSettled, Disconnect,
        ParentConnect [PASSKEY_CHARACTERISTIC_UUID], PasskeyWritten, PasskeyReadSettled,
        PasskeyNotification [0, 1, 2, 3, 4, 5, 0]])
   \<and> emitted (blind_run (new_Blind sample_passkey 5)
       [ParentConnect [PASSKEY_CHARACTERISTIC_UUID], PasskeyWritten,
        PasskeyNotification [0, 1, 2, 3, 4, 5, 0], PasskeyReadSettled, Disconnect,
        ParentConnect [PASSKEY_CHARACTERISTIC_UUID], PasskeyWritten, PasskeyReadSettled,
        PasskeyNotification [0, 1, 2, 3, 4, 5, 0]])
     = emitted (blind_run (new_Blind sample_passkey 5)
       [ParentConnect [PASSKEY_CHARACTERISTIC_UUID], PasskeyWritten,
        PasskeyNotification [0, 1, 2, 3, 4, 5, 0], PasskeyReadSettled, Disconnect,
        ParentConnect [PASSKEY_CHARACTERISTIC_UUID], PasskeyWritten, PasskeyReadSettled])"
proof -
  let ?evs = "[ParentConnect [PASSKEY_CHARACTERISTIC_UUID], PasskeyWritten,
        PasskeyNotification [0, 1, 2, 3, 4, 5, 0], PasskeyReadSettled, Disconnect,
        ParentConnect [PASSKEY_CHARACTERISTIC_UUID], PasskeyWritten, PasskeyReadSettled]"
  have "blind_run (new_Blind sample_passkey 5) (?evs @ [PasskeyNotification [0, 1, 2, 3, 4, 5, 0]])
        = onPasskeyChanged (blind_run (new_Blind sample_passkey 5) ?evs) [0, 1, 2, 3, 4, 5, 0]"
    by (simp only: blind_run_snoc) (simp add: blind_step_def)
  also have "\<dots> = blind_run (new_Blind sample_passkey 5) ?evs"
    by (rule onPasskeyChanged_repeat) (simp add: second_session toHex_echo)
  finally have "blind_run (new_Blind sample_passkey 5)
       (?evs @ [PasskeyNotification [0, 1, 2, 3, 4, 5, 0]])
      = blind_run (new_Blind sample_passkey 5) ?evs" .
  then show ?thesis
    by (simp add: echo_matches) (simp add: second_session)
qed

text \<open>A run that unlocks, and the notification handler at three concrete states.\<close>

theorem unlocked_only_by_passkey_echo_witness:
  "isUnlocked (blind_run (new_Blind sample_passkey 5)
      [ParentConnect [PASSKEY_CHARACTERISTIC_UUID], PasskeyWritten,
       PasskeyNotification [0, 1, 2, 3, 4, 5, 0], PasskeyReadSettled])
   \<and> (\<exists>buf. PasskeyNotification buf \<in> set
          [ParentConnect [PASSKEY_CHARACTERISTIC_UUID], PasskeyWritten,
           PasskeyNotification [0, 1, 2, 3, 4, 5, 0], PasskeyReadSettled]
        \<and> toLowerCase (toHex buf) = toLowerCase sample_passkey @ ''00'')
   \<and> Some (toHex [0, 1, 2, 3, 4, 5, 0]) \<noteq> passkey (new_Blind sample_passkey 5)
   \<and> emitted (onPasskeyChanged (new_Blind sample_passkey 5) [0, 1, 2, 3, 4, 5, 0])
       = [passkey_changed ''00010203040500'', unlocked]
   \<and> unlockAttempts (onPasskeyChanged ((new_Blind sample_passkey 5)\<lparr>unlockAttempts := 3\<rparr>)
        [0, 1, 2, 3, 4, 5, 0]) = 0
   \<and> toLowerCase (toHex [0, 1, 2, 3, 4, 5, 0]) = toLowerCase sample_passkey @ ''00''
   \<and> onPasskeyChanged (blind_run (new_Blind sample_passkey 5)
        [ParentConnect [PASSKEY_CHARACTERISTIC_UUID], PasskeyWritten,
         PasskeyNotification [0, 1, 2, 3, 4, 5, 0], PasskeyReadSettled]) [0, 1, 2, 3, 4, 5, 0]
       = blind_run (new_Blind sample_passkey 5)
        [ParentConnect [PASSKEY_CHARACTERISTIC_UUID], PasskeyWritten,
         PasskeyNotification [0, 1, 2, 3, 4, 5, 0], PasskeyReadSettled]
   \<and> unlockAttempts (blind_run (new_Blind sample_passkey 5)
        [ParentConnect [PASSKEY_CHARACTERISTIC_UUID], PasskeyWritten,
         PasskeyNotification [0, 1, 2, 3, 4, 5, 0], PasskeyReadSettled]) = 0"
proof -
  let ?evs = "[ParentConnect [PASSKEY_CHARACTERISTIC_UUID], PasskeyWritten,
       PasskeyNotification [0, 1, 2, 3, 4, 5, 0], PasskeyReadSettled]"
  let ?b = "new_Blind sample_passkey 5"
  have u: "isUnlocked (blind_run ?b ?evs)" by (simp add: first_session)
  have n: "Some (toHex [0, 1, 2, 3, 4, 5, 0]) \<noteq> passkey ?b"
    "Some (toHex [0, 1, 2, 3, 4, 5, 0]) \<noteq> passkey (?b\<lparr>unlockAttempts := 3\<rparr>)"
    by (simp_all add: new_Blind_def)
  have m: "toLowerCase (toHex [0, 1, 2, 3, 4, 5, 0]) = toLowerCase (blindPasskey ?b) @ ''00''"
    "toLowerCase (toHex [0, 1, 2, 3, 4, 5, 0])
      = toLowerCase (blindPasskey (?b\<lparr>unlockAttempts := 3\<rparr>)) @ ''00''"
    using echo_matches by (simp_all add: new_Blind_def)
  have e: "emitted ?b = []" by (simp add: new_Blind_def)
  show ?thesis
    using unlocked_only_by_passkey_echo [of sample_passkey 5 ?evs "[0, 1, 2, 3, 4, 5, 0]" ?b]
      unlocked_only_by_passkey_echo [of sample_passkey 5 ?evs "[0, 1, 2, 3, 4, 5, 0]"
        "?b\<lparr>unlockAttempts := 3\<rparr>"]
      u n m e echo_matches
    by (auto simp: toHex_echo)
qed

section \<open>The passkey write\<close>

lemma unhex_hexDigit: "n < 16 \<Longrightarrow> unhex (hexDigit n) = Some n"
proof -
  assume "n < 16"
  then have "n \<in> set [0..<16]" by simp
  then show ?thesis
    by (auto simp: upt_rec hexDigit_def unhex_def Let_def)
qed

lemma byte_nibbles: "word_of_nat (16 * (unat b div 16) + unat b mod 16) = (b :: 8 word)"
  by simp

lemma fromHex_toHexByte: "fromHex (toHexByte b @ s) = b # fromHex s"
proof -
  have "unat b div 16 < 16"
    using unsigned_less [of b, where 'a = nat] by simp
  moreover have "unat b mod 16 < 16" by simp
  ultimately show ?thesis
    by (simp add: toHexByte_def unhex_hexDigit del: of_nat_add of_nat_mult)
qed

lemma fromHex_toHex: "fromHex (toHex key @ s) = key @ fromHex s"
  by (induction key) (simp_all add: toHex_def fromHex_toHexByte)

lemma length_toHex: "length (toHex key) = 2 * length key"
  by (induction key) (simp_all add: toHex_def toHexByte_def)

lemma drop_toHex: "drop 2 (toHex key) = toHex (drop 1 key)"
  by (cases key) (simp_all add: toHex_def toHexByte_def)

lemma fromHex_01: "fromHex ''01'' = [1]"
  by (simp add: unhex_def Let_def)

lemma setPasskey_unbound: "passkeyCharacteristic b = None \<Longrightarrow> setPasskey b arg = b"
  by (simp add: setPasskey_def)

text \<open>
  Claim C6.  With the Passkey characteristic bound, \<open>setPasskey\<close> submits one command
  that writes the bytes of the configured hex passkey with "01" appended when the string
  has 12 characters, and of the string without its first two characters with "01"
  appended otherwise.  For a passkey that is the hex rendering of a key these are the key
  (without its first byte unless it has six bytes) followed by the byte 1; the passkey
  "000102030405" gives the seven bytes 00 01 02 03 04 05 01.
\<close>

theorem setPasskey_writes_encoded_passkey:
  assumes "passkeyCharacteristic b \<noteq> None"
  shows "submitted (setPasskey b arg) = submitted b @
           [\<lparr> command = WriteValueWithResponse Passkey
                 (fromHex (if length (blindPasskey b) = 12 then blindPasskey b @ ''01''
                           else drop 2 (blindPasskey b) @ ''01'')),
              maxRetries = 5, name = ''setPasskey'' \<rparr>]
    \<and> (blindPasskey b = toHex key \<longrightarrow>
         submitted (setPasskey b arg) = submitted b @
           [\<lparr> command = WriteValueWithResponse Passkey
                 (if length key = 6 then key @ [1] else drop 1 key @ [1]),
              maxRetries = 5, name = ''setPasskey'' \<rparr>])
    \<and> (blindPasskey b = ''000102030405'' \<longrightarrow>
         submitted (setPasskey b arg) = submitted b @
           [\<lparr> command = WriteValueWithResponse Passkey [0, 1, 2, 3, 4, 5, 1],
              maxRetries = 5, name = ''setPasskey'' \<rparr>])"
proof (intro conjI impI)
  show g: "submitted (setPasskey b arg) = submitted b @
           [\<lparr> command = WriteValueWithResponse Passkey
                 (fromHex (if length (blindPasskey b) = 12 then blindPasskey b @ ''01''
                           else drop 2 (blindPasskey b) @ ''01'')),
              maxRetries = 5, name = ''setPasskey'' \<rparr>]"
    using assms by (simp add: setPasskey_def Let_def)
  {
    assume k: "blindPasskey b = toHex key"
    have "fromHex (if length (blindPasskey b) = 12 then blindPasskey b @ ''01''
                           else drop 2 (blindPasskey b) @ ''01'')
          = (if length key = 6 then key @ [1] else drop 1 key @ [1])"
      unfolding k by (simp add: length_toHex drop_toHex fromHex_toHex unhex_def Let_def)
    with g show "submitted (setPasskey b arg) = submitted b @
           [\<lparr> command = WriteValueWithResponse Passkey
                 (if length key = 6 then key @ [1] else drop 1 key @ [1]),
              maxRetries = 5, name = ''setPasskey'' \<rparr>]" by simp
  }
  {
    assume k: "blindPasskey b = ''000102030405''"
    show "submitted (setPasskey b arg) = submitted b @
           [\<lparr> command = WriteValueWithResponse Passkey [0, 1, 2, 3, 4, 5, 1],
              maxRetries = 5, name = ''setPasskey'' \<rparr>]"
      unfolding g k by (simp add: unhex_def Let_def)
  }
qed

text \<open>The passkey of twelve characters, and one of sixteen.\<close>

theorem setPasskey_writes_encoded_passkey_witness:
  "passkeyCharacteristic ((new_Blind sample_passkey 5)
      \<lparr>passkeyCharacteristic := Some PASSKEY_CHARACTERISTIC_UUID\<rparr>) \<noteq> None
   \<and> blindPasskey ((new_Blind sample_passkey 5)
      \<lparr>passkeyCharacteristic := Some PASSKEY_CHARACTERISTIC_UUID\<rparr>) = ''000102030405''
   \<and> submitted (setPasskey ((new_Blind sample_passkey 5)
      \<lparr>passkeyCharacteristic := Some PASSKEY_CHARACTERISTIC_UUID\<rparr>) ''ignored'')
     = [\<lparr> command = WriteValueWithResponse Passkey [0, 1, 2, 3, 4, 5, 1],
          maxRetries = 5, name = ''setPasskey'' \<rparr>]
   \<and> blindPasskey ((new_Blind ''aabbccddeeff0011'' 5)
      \<lparr>passkeyCharacteristic := Some PASSKEY_CHARACTERISTIC_UUID\<rparr>)
     = toHex [0xAA, 0xBB, 0xCC, 0xDD, 0xEE, 0xFF, 0x00, 0x11]
   \<and> submitted (setPasskey ((new_Blind ''aabbccddeeff0011'' 5)
      \<lparr>passkeyCharacteristic := Some PASSKEY_CHARACTERISTIC_UUID\<rparr>) ''ignored'')
     = [\<lparr> command = WriteValueWithResponse Passkey [0xBB, 0xCC, 0xDD, 0xEE, 0xFF, 0x00, 0x11, 1],
          maxRetries = 5, name = ''setPasskey'' \<rparr>]"
proof -
  let ?b = "(new_Blind sample_passkey 5)\<lparr>passkeyCharacteristic := Some PASSKEY_CHARACTERISTIC_UUID\<rparr>"
  let ?c = "(new_Blind ''aabbccddeeff0011'' 5)
      \<lparr>passkeyCharacteristic := Some PASSKEY_CHARACTERISTIC_UUID\<rparr>"
  have b: "passkeyCharacteristic ?b \<noteq> None" "blindPasskey ?b = ''000102030405''"
    "submitted ?b = []"
    by (simp_all add: new_Blind_def sample_passkey_def)
  have c: "passkeyCharacteristic ?c \<noteq> None" "submitted ?c = []"
    "blindPasskey ?c = toHex [0xAA, 0xBB, 0xCC, 0xDD, 0xEE, 0xFF, 0x00, 0x11]"
    by (simp_all add: new_Blind_def toHex_def toHexByte_def hexDigit_def)
  from setPasskey_writes_encoded_passkey [OF b(1), of "''ignored''" "[]"] b(2)
  have w1: "submitted (setPasskey ?b ''ignored'') = submitted ?b @
           [\<lparr> command = WriteValueWithResponse Passkey [0, 1, 2, 3, 4, 5, 1],
              maxRetries = 5, name = ''setPasskey'' \<rparr>]"
    by blast
  from setPasskey_writes_encoded_passkey [OF c(1), of "''ignored''"
        "[0xAA, 0xBB, 0xCC, 0xDD, 0xEE, 0xFF, 0x00, 0x11]"] c(3)
  have w2: "submitted (setPasskey ?c ''ignored'') = submitted ?c @
           [\<lparr> command = WriteValueWithResponse Passkey
                 (if length [0xAA :: 8 word, 0xBB, 0xCC, 0xDD, 0xEE, 0xFF, 0x00, 0x11] = 6
                  then [0xAA, 0xBB, 0xCC, 0xDD, 0xEE, 0xFF, 0x00, 0x11] @ [1]
                  else drop 1 [0xAA, 0xBB, 0xCC, 0xDD, 0xEE, 0xFF, 0x00, 0x11] @ [1]),
              maxRetries = 5, name = ''setPasskey'' \<rparr>]"
    by blast
  from w1 w2 b c show ?thesis by simp
qed

section \<open>Setting the angle\<close>

lemma showInt_minus_1: "showInt (- 1) = ''-1''"
  by (simp add: showInt_def showNat.simps [of "Suc 0"] hexDigit_def)

lemma showInt_201: "showInt 201 = ''201''"
  by (simp add: showInt_def showNat.simps [of 201] showNat.simps [of 20] showNat.simps [of 2]
      hexDigit_def)

lemma byte_of_angle: "0 \<le> v \<Longrightarrow> v \<le> 200 \<Longrightarrow> uint (word_of_int v :: 8 word) = v"
  by (simp add: uint_word_of_int)

text \<open>
  Claim C7.  \<open>setAngle\<close> throws exactly when the value is outside the closed range from 0
  to 200; for -1 and 201 it throws the invalid-angle error.  A value in the range does not
  throw: with the Angle characteristic bound it submits a single write-with-response of
  the one byte holding the value, and without it nothing is submitted.
\<close>

theorem setAngle_validates_range:
  "((\<exists>e. setAngle b v = Inl e) = (v < 0 \<or> 200 < v))
   \<and> setAngle b (- 1) = Inl (Error ''Invalid angle value: -1'')
   \<and> setAngle b 201 = Inl (Error ''Invalid angle value: 201'')
   \<and> (angleCharacteristic b \<noteq> None \<and> 0 \<le> v \<and> v \<le> 200 \<longrightarrow>
        setAngle b v = Inr (b\<lparr>submitted := submitted b @
           [\<lparr> command = WriteValueWithResponse Angle [word_of_int v],
              maxRetries = 5, name = ''setAngle'' \<rparr>]\<rparr>)
        \<and> uint (word_of_int v :: 8 word) = v)
   \<and> (angleCharacteristic b = None \<and> 0 \<le> v \<and> v \<le> 200 \<longrightarrow> setAngle b v = Inr b)"
  by (auto simp: setAngle_def isValidAngle_def MIN_ANGLE_def MAX_ANGLE_def
      showInt_minus_1 showInt_201 byte_of_angle)

text \<open>The boundary values 0 and 200 with the characteristic bound, and values without it.\<close>

theorem setAngle_validates_range_witness:
  "angleCharacteristic ((new_Blind sample_passkey 5)
      \<lparr>angleCharacteristic := Some ANGLE_CHARACTERISTIC_UUID\<rparr>) \<noteq> None
   \<and> setAngle ((new_Blind sample_passkey 5)
        \<lparr>angleCharacteristic := Some ANGLE_CHARACTERISTIC_UUID\<rparr>) 0
     = Inr ((new_Blind sample_passkey 5)
        \<lparr>angleCharacteristic := Some ANGLE_CHARACTERISTIC_UUID,
         submitted := [\<lparr> command = WriteValueWithResponse Angle [0], maxRetries = 5,
                          name = ''setAngle'' \<rparr>]\<rparr>)
   \<and> setAngle ((new_Blind sample_passkey 5)
        \<lparr>angleCharacteristic := Some ANGLE_CHARACTERISTIC_UUID\<rparr>) 200
     = Inr ((new_Blind sample_passkey 5)
        \<lparr>angleCharacteristic := Some ANGLE_CHARACTERISTIC_UUID,
         submitted := [\<lparr> command = WriteValueWithResponse Angle [200], maxRetries = 5,
                          name = ''setAngle'' \<rparr>]\<rparr>)
   \<and> angleCharacteristic (new_Blind sample_passkey 5) = None
   \<and> setAngle (new_Blind sample_passkey 5) 100 = Inr (new_Blind sample_passkey 5)
   \<and> (\<exists>e. setAngle (new_Blind sample_passkey 5) 201 = Inl e)
   \<and> (\<exists>e. setAngle (new_Blind sample_passkey 5) (- 1) = Inl e)"
proof -
  let ?b = "(new_Blind sample_passkey 5)\<lparr>angleCharacteristic := Some ANGLE_CHARACTERISTIC_UUID\<rparr>"
  have b: "angleCharacteristic ?b \<noteq> None" "submitted ?b = []"
    "angleCharacteristic (new_Blind sample_passkey 5) = None"
    by (simp_all add: new_Blind_def)
  show ?thesis
    using setAngle_validates_range [of ?b 0] setAngle_validates_range [of ?b 200]
      setAngle_validates_range [of "new_Blind sample_passkey 5" 100]
      setAngle_validates_range [of "new_Blind sample_passkey 5" 201]
      setAngle_validates_range [of "new_Blind sample_passkey 5" "- 1"] b
    by simp
qed

section \<open>Angle notifications\<close>

lemma blind_step_angle_events:
  assumes "angle_changed a \<in> set (emitted (blind_step b ev))"
  shows "angle_changed a \<in> set (emitted b) \<or> (0 \<le> a \<and> a \<le> 200)"
  using assms
  by (cases ev)
    (auto simp: blind_defs bindCharacteristics_keeps readUInt8_def isValidAngle_def
      MIN_ANGLE_def MAX_ANGLE_def split: sum.splits if_splits)

lemma blind_run_angle_events:
  "angle_changed a \<in> set (emitted (blind_run (new_Blind pk n) evs)) \<Longrightarrow> 0 \<le> a \<and> a \<le> 200"
proof (induction evs rule: rev_induct)
  case Nil
  then show ?case by (simp add: blind_run_def new_Blind_def)
next
  case (snoc ev evs)
  then show ?case
    using blind_step_angle_events [of a "blind_run (new_Blind pk n) evs" ev]
    by (auto simp: blind_run_snoc)
qed

text \<open>
  Claim C10.  On an Angle notification whose first byte is greater than 200,
  \<open>onAngleChanged\<close> sets the stored angle to -1, whatever it was, and emits nothing.  When
  \<open>onAngleChanged\<close> emits, the byte is in the range, differs from the stored angle, and
  the one event emitted is angle-changed with that value, which becomes the stored angle;
  and every value in the range that differs from the stored angle is emitted.  So every
  angle-changed event of a run of a Blind carries a value between 0 and 200.
\<close>

theorem onAngleChanged_out_of_range:
  "(200 < uint x \<longrightarrow> onAngleChanged b (x # rest) = Inr (b\<lparr>angle := - 1\<rparr>))
   \<and> (onAngleChanged b buf = Inr b' \<and> emitted b' \<noteq> emitted b \<longrightarrow>
        (\<exists>y ys. buf = y # ys \<and> uint y \<le> 200 \<and> uint y \<noteq> angle b
           \<and> emitted b' = emitted b @ [angle_changed (uint y)] \<and> angle b' = uint y))
   \<and> (uint x \<le> 200 \<and> uint x \<noteq> angle b \<longrightarrow>
        onAngleChanged b (x # rest)
          = Inr (b\<lparr>angle := uint x, emitted := emitted b @ [angle_changed (uint x)]\<rparr>))
   \<and> (angle_changed a \<in> set (emitted (blind_run (new_Blind pk n) evs)) \<longrightarrow>
        0 \<le> a \<and> a \<le> 200)"
proof (intro conjI impI)
  assume "200 < uint x"
  then show "onAngleChanged b (x # rest) = Inr (b\<lparr>angle := - 1\<rparr>)"
    by (simp add: onAngleChanged_def readUInt8_def isValidAngle_def MIN_ANGLE_def MAX_ANGLE_def)
next
  assume a: "onAngleChanged b buf = Inr b' \<and> emitted b' \<noteq> emitted b"
  then obtain y ys where buf: "buf = y # ys"
    by (cases buf) (auto simp: onAngleChanged_def readUInt8_def)
  with a have "uint y \<le> 200 \<and> uint y \<noteq> angle b
           \<and> emitted b' = emitted b @ [angle_changed (uint y)] \<and> angle b' = uint y"
    by (auto simp: onAngleChanged_def readUInt8_def isValidAngle_def MIN_ANGLE_def MAX_ANGLE_def
        split: if_splits)
  with buf show "\<exists>y ys. buf = y # ys \<and> uint y \<le> 200 \<and> uint y \<noteq> angle b
           \<and> emitted b' = emitted b @ [angle_changed (uint y)] \<and> angle b' = uint y"
    by blast
next
  assume "uint x \<le> 200 \<and> uint x \<noteq> angle b"
  then show "onAngleChanged b (x # rest)
          = Inr (b\<lparr>angle := uint x, emitted := emitted b @ [angle_changed (uint x)]\<rparr>)"
    by (simp add: onAngleChanged_def readUInt8_def isValidAngle_def MIN_ANGLE_def MAX_ANGLE_def)
next
  assume "angle_changed a \<in> set (emitted (blind_run (new_Blind pk n) evs))"
  then show "0 \<le> a" "a \<le> 200" using blind_run_angle_events by auto
qed

lemma onAngleChanged_empty: "onAngleChanged b [] = Inl RangeError"
  by (simp add: onAngleChanged_def readUInt8_def)

lemma angle_run:
  "blind_run (new_Blind sample_passkey 5) [AngleNotification [100], AngleNotification [201]]
   = (new_Blind sample_passkey 5)\<lparr>angle := - 1, emitted := [angle_changed 100]\<rparr>"
  by (simp add: blind_run_def blind_step_def onAngleChanged_def readUInt8_def isValidAngle_def
      MIN_ANGLE_def MAX_ANGLE_def new_Blind_def)

text \<open>An angle of 100 stored and emitted, then discarded by the byte 201.\<close>

theorem onAngleChanged_out_of_range_witness:
  "(200 :: int) < uint (201 :: 8 word)
   \<and> onAngleChanged ((new_Blind sample_passkey 5)\<lparr>angle := 100\<rparr>) [201]
      = Inr ((new_Blind sample_passkey 5)\<lparr>angle := - 1\<rparr>)
   \<and> onAngleChanged (new_Blind sample_passkey 5) [100]
      = Inr ((new_Blind sample_passkey 5)\<lparr>angle := 100, emitted := [angle_changed 100]\<rparr>)
   \<and> emitted ((new_Blind sample_passkey 5)\<lparr>angle := 100, emitted := [angle_changed 100]\<rparr>)
      \<noteq> emitted (new_Blind sample_passkey 5)
   \<and> (\<exists>y ys. [100 :: 8 word] = y # ys \<and> uint y \<le> 200
        \<and> uint y \<noteq> angle (new_Blind sample_passkey 5))
   \<and> angle_changed 100 \<in> set (emitted (blind_run (new_Blind sample_passkey 5)
        [AngleNotification [100], AngleNotification [201]]))
   \<and> (0 :: int) \<le> 100 \<and> (100 :: int) \<le> 200"
proof -
  let ?b = "new_Blind sample_passkey 5"
  have h: "(200 :: int) < uint (201 :: 8 word)" "uint (100 :: 8 word) \<le> 200"
    "uint (100 :: 8 word) \<noteq> angle ?b" "emitted ?b = []" "uint (100 :: 8 word) = 100"
    by (simp_all add: new_Blind_def)
  have m: "angle_changed 100 \<in> set (emitted (blind_run ?b
        [AngleNotification [100], AngleNotification [201]]))"
    by (simp add: angle_run)
  have upd: "?b\<lparr>angle := 100, angle := - 1\<rparr> = ?b\<lparr>angle := - 1\<rparr>" by simp
  show ?thesis
    using onAngleChanged_out_of_range [of 201 "?b\<lparr>angle := 100\<rparr>" "[]" "[100]"
        "?b\<lparr>angle := 100, emitted := [angle_changed 100]\<rparr>" 100 sample_passkey 5
        "[AngleNotification [100], AngleNotification [201]]"]
      onAngleChanged_out_of_range [of 100 ?b "[]" "[100]"
        "?b\<lparr>angle := 100, emitted := [angle_changed 100]\<rparr>" 100 sample_passkey 5
        "[AngleNotification [100], AngleNotification [201]]"]
      h m
    by (simp add: new_Blind_def)
qed

section \<open>Angle publications of the bridge\<close>

lemma find_by_mac:
  "address \<in> mac ` set configs \<Longrightarrow>
     \<exists>blindConfig. find (\<lambda>blind. mac blind = address) configs = Some blindConfig
        \<and> mac blindConfig = address"
  by (induction configs) auto

lemma getBlindConfig_configured:
  assumes "address \<in> mac ` set (blinds app)"
  obtains blindConfig where "getBlindConfig app address = Some blindConfig"
    and "mac blindConfig = address"
  using find_by_mac [OF assms] by (auto simp: getBlindConfig_def)

lemma onBlindAngleChanged_not_configured:
  "address \<notin> mac ` set (blinds app) \<Longrightarrow> onBlindAngleChanged app address a = (app, None)"
proof -
  assume "address \<notin> mac ` set (blinds app)"
  then have "find (\<lambda>blind. mac blind = address) (blinds app) = None"
    by (auto simp: find_None_iff)
  then show ?thesis by (simp add: onBlindAngleChanged_def getBlindConfig_def)
qed

text \<open>
  Claim C8, as amended.  For an angle carried by an angle-changed event (a value from 0 to
  200) of a blind of the configuration, the bridge publishes, if MQTT is connected when
  the handler runs, on the tilt/state topic of that blind
  (\<open>bt2mqtt/cover/<mac with ":" replaced by "_">/tilt/state\<close>) the rounded value: 0 when the
  angle is at most 10, 200 when it is at least 190, the angle itself otherwise.  When the
  handler resumes after that publication it publishes, if MQTT is connected then, on the
  state topic of that blind (\<open>bt2mqtt/cover/<mac with ":" replaced by "_">/state\<close>)
  "closed" when the angle is in [0,10] or [190,200] and "open" otherwise.  A publication
  due while MQTT is not connected is not made, and nothing else is changed.
\<close>

theorem angle_publication:
  assumes "address \<in> mac ` set (blinds app)" and "0 \<le> a" and "a \<le> 200"
  shows "fst (onBlindAngleChanged app address a) =
           (if isMqttConnected app
            then app\<lparr>published := published app @
                   [(''bt2mqtt/cover/'' @ map (\<lambda>c. if c = CHR '':'' then CHR ''_'' else c) address
                       @ ''/tilt/state'',
                     JsonNumber (if a \<le> 10 then 0 else if 190 \<le> a then 200 else a))]\<rparr>
            else app)
    \<and> onBlindAngleChanged_resume app' (snd (onBlindAngleChanged app address a)) =
           (if isMqttConnected app'
            then app'\<lparr>published := published app' @
                   [(''bt2mqtt/cover/'' @ map (\<lambda>c. if c = CHR '':'' then CHR ''_'' else c) address
                       @ ''/state'',
                     Text (if (0 \<le> a \<and> a \<le> 10) \<or> (190 \<le> a \<and> a \<le> 200)
                           then ''closed'' else ''open''))]\<rparr>
            else app')"
proof -
  from assms(1) obtain blindConfig where
    c: "getBlindConfig app address = Some blindConfig" "mac blindConfig = address"
    by (rule getBlindConfig_configured)
  have t: "getBlindTiltStatusTopic blindConfig =
      ''bt2mqtt/cover/'' @ map (\<lambda>c. if c = CHR '':'' then CHR ''_'' else c) address @ ''/tilt/state''"
    "getBlindStateTopic blindConfig =
      ''bt2mqtt/cover/'' @ map (\<lambda>c. if c = CHR '':'' then CHR ''_'' else c) address @ ''/state''"
    using c(2)
    by (simp_all add: getBlindTiltStatusTopic_def getBlindStateTopic_def MQTT_TOPIC_PREFIX_def
        sanitizeMacAddress_def)
  have first: "onBlindAngleChanged app address a =
      (publishNumberMessage app (getBlindTiltStatusTopic blindConfig)
         (if a \<le> 10 then 0 else if 190 \<le> a then 200 else a),
       Some (blindConfig, if a \<le> 10 then 0 else if 190 \<le> a then 200 else a))"
    using c(1) by (simp add: onBlindAngleChanged_def Let_def)
  show ?thesis
    unfolding first using assms(2,3)
    by (simp add: onBlindAngleChanged_resume_def publishNumberMessage_def
        publishStringMessage_def t)
qed

lemma sample_app_configured:
  "sample_mac \<in> mac ` set (blinds sample_app)" "isMqttConnected sample_app"
  "isMqttConnected (log_conn sample_app ''on_ready'')"
  "\<not> isMqttConnected (log_conn sample_app ''on_disconnect'')"
  "blinds (log_conn sample_app ''on_disconnect'') = blinds sample_app"
  "published sample_app = []"
  "published (log_conn sample_app ''on_disconnect'') = []"
  "map (\<lambda>c. if c = CHR '':'' then CHR ''_'' else c) sample_mac = ''AA_BB_CC_DD_EE_FF''"
  by (simp_all add: sample_app_def log_conn_def sample_mac_def)

text \<open>
  The claim as first stated fails while MQTT is not connected.  The bridge has lost its
  connection when a configured blind reports the angle 100: neither turn of the handler
  publishes anything.  And when the connection is lost between the two turns, the tilt
  value is published and the state is not.
\<close>

theorem no_publication_while_disconnected:
  "sample_mac \<in> mac ` set (blinds (log_conn sample_app ''on_disconnect''))
   \<and> fst (onBlindAngleChanged (log_conn sample_app ''on_disconnect'') sample_mac 100)
       = log_conn sample_app ''on_disconnect''
   \<and> published (onBlindAngleChanged_resume
        (fst (onBlindAngleChanged (log_conn sample_app ''on_disconnect'') sample_mac 100))
        (snd (onBlindAngleChanged (log_conn sample_app ''on_disconnect'') sample_mac 100))) = []
   \<and> published (onBlindAngleChanged_resume
        (log_conn (fst (onBlindAngleChanged sample_app sample_mac 100)) ''on_disconnect'')
        (snd (onBlindAngleChanged sample_app sample_mac 100)))
       = [(''bt2mqtt/cover/AA_BB_CC_DD_EE_FF/tilt/state'', JsonNumber 100)]"
  by (simp add: onBlindAngleChanged_def onBlindAngleChanged_resume_def getBlindConfig_def
      publishNumberMessage_def publishStringMessage_def log_conn_def sample_app_def
      sample_mac_def getBlindTiltStatusTopic_def getBlindStateTopic_def MQTT_TOPIC_PREFIX_def
      sanitizeMacAddress_def Let_def)

text \<open>The angles 7, 100 and 190 of the blind AA:BB:CC:DD:EE:FF, connected and not.\<close>

theorem angle_publication_witness:
  "sample_mac \<in> mac ` set (blinds sample_app)
   \<and> published (onBlindAngleChanged_resume
        (fst (onBlindAngleChanged sample_app sample_mac 7))
        (snd (onBlindAngleChanged sample_app sample_mac 7)))
     = [(''bt2mqtt/cover/AA_BB_CC_DD_EE_FF/tilt/state'', JsonNumber 0),
        (''bt2mqtt/cover/AA_BB_CC_DD_EE_FF/state'', Text ''closed'')]
   \<and> published (onBlindAngleChanged_resume
        (fst (onBlindAngleChanged sample_app sample_mac 100))
        (snd (onBlindAngleChanged sample_app sample_mac 100)))
     = [(''bt2mqtt/cover/AA_BB_CC_DD_EE_FF/tilt/state'', JsonNumber 100),
        (''bt2mqtt/cover/AA_BB_CC_DD_EE_FF/state'', Text ''open'')]
   \<and> published (onBlindAngleChanged_resume
        (fst (onBlindAngleChanged sample_app sample_mac 190))
        (snd (onBlindAngleChanged sample_app sample_mac 190)))
     = [(''bt2mqtt/cover/AA_BB_CC_DD_EE_FF/tilt/state'', JsonNumber 200),
        (''bt2mqtt/cover/AA_BB_CC_DD_EE_FF/state'', Text ''closed'')]
   \<and> published (onBlindAngleChanged_resume
        (log_conn sample_app ''on_disconnect'')
        (snd (onBlindAngleChanged sample_app sample_mac 190))) = []"
proof -
  note c = sample_app_configured
  have p7: "fst (onBlindAngleChanged sample_app sample_mac 7) =
      sample_app\<lparr>published := [(''bt2mqtt/cover/AA_BB_CC_DD_EE_FF/tilt/state'', JsonNumber 0)]\<rparr>"
    using angle_publication [OF c(1), of 7] c by simp
  have p100: "fst (onBlindAngleChanged sample_app sample_mac 100) =
      sample_app\<lparr>published := [(''bt2mqtt/cover/AA_BB_CC_DD_EE_FF/tilt/state'', JsonNumber 100)]\<rparr>"
    using angle_publication [OF c(1), of 100] c by simp
  have p190: "fst (onBlindAngleChanged sample_app sample_mac 190) =
      sample_app\<lparr>published := [(''bt2mqtt/cover/AA_BB_CC_DD_EE_FF/tilt/state'', JsonNumber 200)]\<rparr>"
    using angle_publication [OF c(1), of 190] c by simp
  show ?thesis
    using angle_publication [OF c(1), of 7 "fst (onBlindAngleChanged sample_app sample_mac 7)"]
      angle_publication [OF c(1), of 100 "fst (onBlindAngleChanged sample_app sample_mac 100)"]
      angle_publication [OF c(1), of 190 "fst (onBlindAngleChanged sample_app sample_mac 190)"]
      angle_publication [OF c(1), of 190 "log_conn sample_app ''on_disconnect''"]
      c
    by (simp add: p7 p100 p190)
qed

end
